theory Spec2Isabelle
  imports Main "HOL-Library.Word"
begin

section \<open>Firmware staging for MCUboot: the update handler of mcubupdate\_handler.cpp\<close>

text \<open>
  The development embeds the routines of
  \<^verbatim>\<open>mcubupdate_handler.cpp\<close>: the non-volatile upgrade-state record
  (\<^verbatim>\<open>nvImgUpgSt_*\<close>), the post-reboot constructor
  \<^verbatim>\<open>Update_NVImgUpgSt_PostReboot\<close>, the chunk callback
  \<^verbatim>\<open>CombinedDownloadInstall\<close> with \<^verbatim>\<open>bd_read_program_unit\<close>,
  \<^verbatim>\<open>Apply\<close> and \<^verbatim>\<open>VerifySignature\<close>.

  Conventions. A byte is an \<open>8 word\<close>. Values of type \<^verbatim>\<open>size_t\<close> are natural
  numbers: every offset and length the handler computes is bounded by the size of the
  secondary slot or of the record, so no 32-bit addition wraps. A routine that can stop
  abnormally (a failing \<^verbatim>\<open>MBED_ASSERT\<close>, a read past the end of a buffer) returns
  a sum whose left side is the \<open>fault\<close>; the ordinary \<^verbatim>\<open>return false\<close> and
  \<^verbatim>\<open>ADUC_Result_Failure\<close> outcomes are ordinary values. Assertions are taken as
  compiled in: a failing \<^verbatim>\<open>MBED_ASSERT\<close> halts the handler. Calls into Mbed OS,
  MCUboot and the update agent (key-value store, block device, bootloader flags, hash
  library, workflow handle) are modelled by records that hold what the calls observe and
  change; a call that reports an error changes nothing.
\<close>

type_synonym byte = "8 word"

datatype fault = AssertFailed | BufferOverrun

subsection \<open>Raw memory helpers\<close>

text \<open>\<^verbatim>\<open>memset(p, 0x00, n)\<close> on an object held as a byte list (\<open>n\<close> within the object).\<close>

definition memset_zero :: "byte list \<Rightarrow> nat \<Rightarrow> byte list" where
  "memset_zero obj n = replicate n 0 @ drop n obj"

text \<open>\<^verbatim>\<open>memcpy(obj + off, src, length src)\<close> (the destination range within the object).\<close>

definition memcpy_at :: "byte list \<Rightarrow> nat \<Rightarrow> byte list \<Rightarrow> byte list" where
  "memcpy_at obj off src = take off obj @ src @ drop (off + length src) obj"

text \<open>
  \<^verbatim>\<open>strlen(obj + off)\<close>: the number of bytes before the first NUL. The scan is
  confined to the object; when the object holds no NUL from \<open>off\<close> on, the C routine
  reads past it, which is the fault \<open>BufferOverrun\<close>.
\<close>

definition c_strlen :: "byte list \<Rightarrow> nat \<Rightarrow> fault + nat" where
  "c_strlen obj off =
     (if 0 \<in> set (drop off obj)
      then Inr (length (takeWhile (\<lambda>c. c \<noteq> 0) (drop off obj)))
      else Inl BufferOverrun)"

definition bool_byte :: "bool \<Rightarrow> byte" where
  "bool_byte b = (if b then 1 else 0)"

subsection \<open>The in-storage record \<^verbatim>\<open>OTA_NonVolatileImageUpgradeState_t\<close>\<close>

text \<open>
  The record is stored and reset as raw bytes (\<^verbatim>\<open>kv_set\<close>, \<^verbatim>\<open>kv_get\<close>,
  \<^verbatim>\<open>memset\<close>, \<^verbatim>\<open>offsetof\<close>), so it is modelled as a byte list with named
  offsets. The offsets are those of the 32-bit Arm ABI the handler is built for
  (\<^verbatim>\<open>bool\<close> and \<^verbatim>\<open>char\<close> one byte, \<^verbatim>\<open>uint32_t\<close> aligned to four), with
  MCUboot's eight-byte \<^verbatim>\<open>struct image_version\<close>
  (\<^verbatim>\<open>uint8_t iv_major, iv_minor; uint16_t iv_revision; uint32_t iv_build_num\<close>):

  \<^item> 0: \<^verbatim>\<open>stageVersion_valid\<close>; 4..11: \<^verbatim>\<open>stageVersion\<close>;
  \<^item> 12: \<^verbatim>\<open>installRebooted_valid\<close>; 13: \<^verbatim>\<open>installRebooted\<close>;
  \<^item> 14: \<^verbatim>\<open>stageInstalledCriteria_valid\<close>; 15..79: \<^verbatim>\<open>stageInstalledCriteria\<close>;
  \<^item> 80..83: \<^verbatim>\<open>reserved\<close>;
  \<^item> 84: \<^verbatim>\<open>persistentInstalledCriteria_valid\<close>; 85..149: \<^verbatim>\<open>persistentInstalledCriteria\<close>;
  \<^item> 150..151: tail padding.
\<close>

definition INSTALLEDCRITERIA_MAXCHAR :: nat where
  "INSTALLEDCRITERIA_MAXCHAR = 64"

definition sizeof_image_version :: nat where
  "sizeof_image_version = 8"

definition sizeof_NVImgUpgSt :: nat where
  "sizeof_NVImgUpgSt = 152"

definition off_stageVersion_valid :: nat where
  "off_stageVersion_valid = 0"

definition off_stageVersion :: nat where
  "off_stageVersion = 4"

definition off_installRebooted_valid :: nat where
  "off_installRebooted_valid = 12"

definition off_installRebooted :: nat where
  "off_installRebooted = 13"

definition off_stageInstalledCriteria_valid :: nat where
  "off_stageInstalledCriteria_valid = 14"

definition off_stageInstalledCriteria :: nat where
  "off_stageInstalledCriteria = 15"

definition off_reserved :: nat where
  "off_reserved = 80"

definition off_persistentInstalledCriteria_valid :: nat where
  "off_persistentInstalledCriteria_valid = 84"

definition off_persistentInstalledCriteria :: nat where
  "off_persistentInstalledCriteria = 85"

text \<open>A \<^verbatim>\<open>bool\<close> member is read as true when its byte is not zero.\<close>

definition bool_at :: "byte list \<Rightarrow> nat \<Rightarrow> bool" where
  "bool_at st off = (st ! off \<noteq> 0)"

definition stageVersion_valid :: "byte list \<Rightarrow> bool" where
  "stageVersion_valid st = bool_at st off_stageVersion_valid"

definition stageVersion :: "byte list \<Rightarrow> byte list" where
  "stageVersion st = take sizeof_image_version (drop off_stageVersion st)"

definition installRebooted_valid :: "byte list \<Rightarrow> bool" where
  "installRebooted_valid st = bool_at st off_installRebooted_valid"

definition installRebooted :: "byte list \<Rightarrow> bool" where
  "installRebooted st = bool_at st off_installRebooted"

definition stageInstalledCriteria_valid :: "byte list \<Rightarrow> bool" where
  "stageInstalledCriteria_valid st = bool_at st off_stageInstalledCriteria_valid"

definition persistentInstalledCriteria_valid :: "byte list \<Rightarrow> bool" where
  "persistentInstalledCriteria_valid st = bool_at st off_persistentInstalledCriteria_valid"

text \<open>The C string held from offset \<open>off\<close>: the bytes before the first NUL.\<close>

definition c_string_at :: "byte list \<Rightarrow> nat \<Rightarrow> byte list" where
  "c_string_at st off = takeWhile (\<lambda>c. c \<noteq> 0) (drop off st)"

subsection \<open>The key-value store\<close>

text \<open>
  The store is Mbed OS's global key-value API, seen through the one key
  \<^verbatim>\<open>OTA_IMAGE_UPDATE_STATE_KEY\<close>. \<open>kv_value\<close> is the value held under the key
  (\<open>None\<close> when \<^verbatim>\<open>kv_get\<close> reports an error, as for a key never written);
  \<open>kv_writable\<close> tells whether \<^verbatim>\<open>kv_set\<close> reports \<^verbatim>\<open>MBED_SUCCESS\<close>.
  \<^verbatim>\<open>kv_get\<close> copies at most the buffer's size and reports the number of bytes copied.
\<close>

record kv_store =
  kv_value :: "byte list option"
  kv_writable :: bool

definition nvImgUpgSt_setAll :: "byte list \<Rightarrow> kv_store \<Rightarrow> bool \<times> kv_store" where
  "nvImgUpgSt_setAll imageUpgradeState kv =
     (if kv_writable kv
      then (True, kv\<lparr>kv_value := Some imageUpgradeState\<rparr>)
      else (False, kv))"

definition nvImgUpgSt_getAll :: "kv_store \<Rightarrow> byte list option" where
  "nvImgUpgSt_getAll kv =
     (case kv_value kv of
        None \<Rightarrow> None
      | Some v \<Rightarrow>
          (let got = take sizeof_NVImgUpgSt v
           in if length got \<noteq> sizeof_NVImgUpgSt then None else Some got))"

definition nvImgUpgSt_reset :: "bool \<Rightarrow> kv_store \<Rightarrow> bool \<times> kv_store" where
  "nvImgUpgSt_reset includeReserved kv =
     (case (if includeReserved then None else nvImgUpgSt_getAll kv) of
        None \<Rightarrow> nvImgUpgSt_setAll (replicate sizeof_NVImgUpgSt 0) kv
      | Some imageUpgradeState \<Rightarrow>
          nvImgUpgSt_setAll (memset_zero imageUpgradeState off_reserved) kv)"

definition nvImgUpgSt_setStageVersion :: "byte list \<Rightarrow> kv_store \<Rightarrow> bool \<times> kv_store" where
  "nvImgUpgSt_setStageVersion ver kv =
     (case nvImgUpgSt_getAll kv of
        None \<Rightarrow> (False, kv)
      | Some st \<Rightarrow>
          nvImgUpgSt_setAll
            ((memcpy_at st off_stageVersion (take sizeof_image_version ver))
               [off_stageVersion_valid := 1]) kv)"

definition nvImgUpgSt_setInstallRebooted :: "bool \<Rightarrow> kv_store \<Rightarrow> bool \<times> kv_store" where
  "nvImgUpgSt_setInstallRebooted rebooted kv =
     (case nvImgUpgSt_getAll kv of
        None \<Rightarrow> (False, kv)
      | Some st \<Rightarrow>
          nvImgUpgSt_setAll
            (st[off_installRebooted := bool_byte rebooted, off_installRebooted_valid := 1]) kv)"

text \<open>The argument is a C string: its characters are the bytes before the first NUL.\<close>

definition nvImgUpgSt_setStageInstalledCriteria ::
  "byte list \<Rightarrow> kv_store \<Rightarrow> bool \<times> kv_store" where
  "nvImgUpgSt_setStageInstalledCriteria installedCriteria kv =
     (case nvImgUpgSt_getAll kv of
        None \<Rightarrow> (False, kv)
      | Some st \<Rightarrow>
          (let s = takeWhile (\<lambda>c. c \<noteq> 0) installedCriteria; len = length s
           in if len > INSTALLEDCRITERIA_MAXCHAR then (False, kv)
              else nvImgUpgSt_setAll
                     ((memcpy_at st off_stageInstalledCriteria (s @ [0]))
                        [off_stageInstalledCriteria_valid := 1]) kv))"

definition settled_record :: "byte list \<Rightarrow> nat \<Rightarrow> byte list" where
  "settled_record st len =
     memcpy_at
       ((memcpy_at st off_persistentInstalledCriteria
           (take (len + 1) (drop off_stageInstalledCriteria st)))
          [off_persistentInstalledCriteria_valid := 1,
           off_stageInstalledCriteria_valid := 0])
       off_stageInstalledCriteria (replicate (INSTALLEDCRITERIA_MAXCHAR + 1) 0)"

definition nvImgUpgSt_settleInstalledCriteria :: "kv_store \<Rightarrow> fault + (bool \<times> kv_store)" where
  "nvImgUpgSt_settleInstalledCriteria kv =
     (case nvImgUpgSt_getAll kv of
        None \<Rightarrow> Inr (False, kv)
      | Some st \<Rightarrow>
          if \<not> stageInstalledCriteria_valid st then Inr (False, kv)
          else (case c_strlen st off_stageInstalledCriteria of
                  Inl f \<Rightarrow> Inl f
                | Inr len \<Rightarrow>
                    if len > INSTALLEDCRITERIA_MAXCHAR then Inr (False, kv)
                    else Inr (nvImgUpgSt_setAll (settled_record st len) kv)))"

text \<open>
  \<^verbatim>\<open>nvImgUpgSt_installRebooted\<close> and the other queries return \<^verbatim>\<open>false\<close> without
  touching their out-parameter, or \<^verbatim>\<open>true\<close> with the out-parameter set: an option.
\<close>

definition nvImgUpgSt_installRebooted :: "kv_store \<Rightarrow> bool option" where
  "nvImgUpgSt_installRebooted kv =
     (case nvImgUpgSt_getAll kv of
        None \<Rightarrow> None
      | Some st \<Rightarrow> if \<not> installRebooted_valid st then None else Some (installRebooted st))"

definition nvImgUpgSt_persistentInstalledCriteria ::
  "kv_store \<Rightarrow> nat \<Rightarrow> fault + byte list option" where
  "nvImgUpgSt_persistentInstalledCriteria kv installedCriteria_maxlen =
     (case nvImgUpgSt_getAll kv of
        None \<Rightarrow> Inr None
      | Some st \<Rightarrow>
          if \<not> persistentInstalledCriteria_valid st then Inr None
          else (case c_strlen st off_persistentInstalledCriteria of
                  Inl f \<Rightarrow> Inl f
                | Inr len \<Rightarrow>
                    if len + 1 > installedCriteria_maxlen then Inr None
                    else Inr (Some (take (len + 1) (drop off_persistentInstalledCriteria st)))))"

subsection \<open>The bootloader\<close>

text \<open>
  MCUboot is an external library. The handler uses the image header mapped at
  \<^verbatim>\<open>MCUBOOT_PRIMARY_SLOT_START_ADDR\<close>, \<^verbatim>\<open>flash_area_open\<close>,
  \<^verbatim>\<open>boot_read_image_ok\<close>, \<^verbatim>\<open>boot_set_confirmed\<close> and \<^verbatim>\<open>boot_set_pending\<close>.
  The record below holds what these calls observe and change:
  \<^item> \<open>primary_header\<close>: the 32 bytes of \<^verbatim>\<open>struct image_header\<close> of the running image
    (\<^verbatim>\<open>ih_magic\<close> at 0, \<^verbatim>\<open>ih_ver\<close> at 20);
  \<^item> \<open>flash_area_open_ok\<close>: whether \<^verbatim>\<open>flash_area_open\<close> on the primary slot returns 0;
  \<^item> \<open>image_ok\<close>: what \<^verbatim>\<open>boot_read_image_ok\<close> yields, \<open>None\<close> for a non-zero return
    code, else the flag byte of the primary slot;
  \<^item> \<open>confirm_effective\<close>: whether \<^verbatim>\<open>boot_set_confirmed\<close> manages to write the flag;
  \<^item> \<open>set_pending_ok\<close>: whether \<^verbatim>\<open>boot_set_pending\<close> returns 0;
  \<^item> \<open>secondary_pending\<close>: the secondary image has been marked pending.
\<close>

record bootloader =
  primary_header :: "byte list"
  flash_area_open_ok :: bool
  image_ok :: "byte option"
  confirm_effective :: bool
  set_pending_ok :: bool
  secondary_pending :: bool

definition BOOT_FLAG_SET :: byte where
  "BOOT_FLAG_SET = 1"

definition BOOT_FLAG_UNSET :: byte where
  "BOOT_FLAG_UNSET = 3"

definition sizeof_image_header :: nat where
  "sizeof_image_header = 32"

definition off_ih_ver :: nat where
  "off_ih_ver = 20"

definition IMAGE_MAGIC :: "32 word" where
  "IMAGE_MAGIC = 0x96f3b83d"

text \<open>A little-endian \<^verbatim>\<open>uint32_t\<close> read from the first four bytes.\<close>

definition le_u32 :: "byte list \<Rightarrow> 32 word" where
  "le_u32 bs = word_of_nat (foldr (\<lambda>b n. unat b + 256 * n) (take 4 bs) 0)"

definition ih_magic :: "byte list \<Rightarrow> 32 word" where
  "ih_magic hdr = le_u32 hdr"

definition ih_ver :: "byte list \<Rightarrow> byte list" where
  "ih_ver hdr = take sizeof_image_version (drop off_ih_ver hdr)"

text \<open>
  Modelled from the spec: \<^verbatim>\<open>boot_set_confirmed\<close> (the spec's \<open>mark_confirmed\<close>) is
  MCUboot's; it marks the image in the primary slot as confirmed, so that a later
  \<^verbatim>\<open>boot_read_image_ok\<close> reads \<^verbatim>\<open>BOOT_FLAG_SET\<close>, when the bootloader can write
  the flag, and changes nothing otherwise.
\<close>

definition boot_set_confirmed :: "bootloader \<Rightarrow> bootloader" where
  "boot_set_confirmed bl =
     (if confirm_effective bl then bl\<lparr>image_ok := Some BOOT_FLAG_SET\<rparr> else bl)"

text \<open>
  Modelled from the spec: \<^verbatim>\<open>boot_set_pending\<close> (the spec's \<open>mark_pending\<close>) is
  MCUboot's; it marks the secondary slot pending and returns 0, or returns an error.
\<close>

definition boot_set_pending :: "bool \<Rightarrow> bootloader \<Rightarrow> bool \<times> bootloader" where
  "boot_set_pending permanent bl =
     (if set_pending_ok bl then (True, bl\<lparr>secondary_pending := True\<rparr>) else (False, bl))"

definition nvImgUpgSt_installed :: "kv_store \<Rightarrow> bootloader \<Rightarrow> bool option" where
  "nvImgUpgSt_installed kv bl =
     (case nvImgUpgSt_getAll kv of
        None \<Rightarrow> None
      | Some st \<Rightarrow>
          if \<not> installRebooted_valid st \<or> \<not> installRebooted st then None
          else if \<not> stageVersion_valid st then None
          else if stageVersion st \<noteq> ih_ver (primary_header bl) then None
          else if \<not> flash_area_open_ok bl then None
          else (let image_ok = (case image_ok bl of None \<Rightarrow> BOOT_FLAG_UNSET | Some v \<Rightarrow> v)
                in if image_ok = BOOT_FLAG_SET then Some True else Some False))"

subsection \<open>The post-reboot constructor\<close>

text \<open>
  \<^verbatim>\<open>Update_NVImgUpgSt_PostReboot\<close> runs as the constructor of a global object. The
  third component of its result tells whether it reached \<^verbatim>\<open>NVIC_SystemReset()\<close>.
\<close>

definition Update_NVImgUpgSt_PostReboot ::
  "kv_store \<times> bootloader \<Rightarrow> fault + (kv_store \<times> bootloader \<times> bool)" where
  "Update_NVImgUpgSt_PostReboot s =
     (let kv = fst s; bl = snd s;
          kv1 = (case nvImgUpgSt_installRebooted kv of
                   Some False \<Rightarrow> snd (nvImgUpgSt_setInstallRebooted True kv)
                 | _ \<Rightarrow> kv);
          bl1 = (case nvImgUpgSt_installed kv1 bl of
                   Some False \<Rightarrow> boot_set_confirmed bl
                 | _ \<Rightarrow> bl)
      in case nvImgUpgSt_installed kv1 bl1 of
           None \<Rightarrow> Inr (kv1, bl1, False)
         | Some True \<Rightarrow>
             (case nvImgUpgSt_settleInstalledCriteria kv1 of
                Inl f \<Rightarrow> Inl f
              | Inr (_, kv2) \<Rightarrow> Inr (snd (nvImgUpgSt_reset False kv2), bl1, False))
         | Some False \<Rightarrow> Inr (snd (nvImgUpgSt_reset False kv1), bl1, True))"

subsection \<open>The secondary block device\<close>

text \<open>
  \<^verbatim>\<open>mbed::BlockDevice\<close> is Mbed OS's; the handler uses \<^verbatim>\<open>init\<close>, \<^verbatim>\<open>erase\<close>,
  \<^verbatim>\<open>read\<close>, \<^verbatim>\<open>program\<close>, \<^verbatim>\<open>get_read_size\<close>, \<^verbatim>\<open>get_program_size\<close> and
  \<^verbatim>\<open>size\<close>. The device is its storage (\<open>size() = length (bd_storage bd)\<close>) and its
  two granularities. A read or a program succeeds exactly when it is valid in the sense of
  \<^verbatim>\<open>BlockDevice::is_valid_read\<close> and \<^verbatim>\<open>is_valid_program\<close>: address and size are
  multiples of the granularity and the range lies within the device. A read returns the
  bytes last programmed. A return code other than 0 is the result \<open>None\<close>.
\<close>

record BlockDevice =
  bd_storage :: "byte list"
  bd_read_size :: nat
  bd_program_size :: nat
  bd_erase_value :: byte
  bd_init_ok :: bool

definition is_valid_read :: "BlockDevice \<Rightarrow> nat \<Rightarrow> nat \<Rightarrow> bool" where
  "is_valid_read bd addr sz =
     (addr mod bd_read_size bd = 0 \<and> sz mod bd_read_size bd = 0 \<and>
      addr + sz \<le> length (bd_storage bd))"

definition is_valid_program :: "BlockDevice \<Rightarrow> nat \<Rightarrow> nat \<Rightarrow> bool" where
  "is_valid_program bd addr sz =
     (addr mod bd_program_size bd = 0 \<and> sz mod bd_program_size bd = 0 \<and>
      addr + sz \<le> length (bd_storage bd))"

definition bd_read :: "BlockDevice \<Rightarrow> nat \<Rightarrow> nat \<Rightarrow> byte list option" where
  "bd_read bd addr sz =
     (if is_valid_read bd addr sz then Some (take sz (drop addr (bd_storage bd))) else None)"

definition bd_program :: "BlockDevice \<Rightarrow> byte list \<Rightarrow> nat \<Rightarrow> nat \<Rightarrow> BlockDevice option" where
  "bd_program bd buf addr sz =
     (if is_valid_program bd addr sz
      then Some (bd\<lparr>bd_storage := memcpy_at (bd_storage bd) addr (take sz buf)\<rparr>)
      else None)"

definition bd_erase_all :: "BlockDevice \<Rightarrow> BlockDevice" where
  "bd_erase_all bd =
     bd\<lparr>bd_storage := replicate (length (bd_storage bd)) (bd_erase_value bd)\<rparr>"

subsection \<open>\<^verbatim>\<open>bd_read_program_unit\<close>\<close>

text \<open>
  The result is the fault of a failing assertion or of a copy that would run past the
  read-block buffer, else \<open>None\<close> for a non-zero return code of \<^verbatim>\<open>read\<close>, else the
  program unit copied out of the read block.
\<close>

definition bd_read_program_unit ::
  "BlockDevice \<Rightarrow> nat \<Rightarrow> nat \<Rightarrow> nat \<Rightarrow> fault + byte list option" where
  "bd_read_program_unit bd progunit_size readblock_size offset =
     (if \<not> readblock_size \<ge> progunit_size then Inl AssertFailed
      else
        (let readblock_aligndown = (offset div readblock_size) * readblock_size;
             progunit_aligndown = (offset div progunit_size) * progunit_size
         in if \<not> progunit_aligndown \<ge> readblock_aligndown then Inl AssertFailed
            else (case bd_read bd readblock_aligndown readblock_size of
                    None \<Rightarrow> Inr None
                  | Some readblock \<Rightarrow>
                      if progunit_aligndown - readblock_aligndown + progunit_size
                           > readblock_size
                      then Inl BufferOverrun
                      else Inr (Some (take progunit_size
                             (drop (progunit_aligndown - readblock_aligndown) readblock))))))"

subsection \<open>The operation context\<close>

text \<open>
  \<^verbatim>\<open>OTA_OperationContext_t\<close>. The two scratch buffers are written before every use, so
  only their being allocated (a non-null pointer) is kept. \<open>secondary_bd = None\<close> is the
  null pointer.
\<close>

record OTA_OperationContext =
  fwu_active_image_header :: "byte list"
  fwu_stage_image_header :: "byte list"
  secondary_bd :: "BlockDevice option"
  secondary_bd_inited :: bool
  secondary_bd_progunit :: bool
  secondary_bd_progunit_size :: nat
  secondary_bd_readblock :: bool
  secondary_bd_readblock_size :: nat
  dl_prog_offset :: nat
  dl_prog_total_exp :: nat
  dl_prog_total_act :: nat

datatype ADUC_ResultCode =
    ADUC_Result_Failure
  | ADUC_Result_Failure_Cancelled
  | ADUC_Result_Download_Success
  | ADUC_Result_Apply_Success
  | ADUC_Result_Apply_RequiredReboot
  | ADUC_Result_Cancel_Success
  | ADUC_Result_Cancel_UnableToCancel

text \<open>\<^verbatim>\<open>IsAducResultCodeFailure\<close>: the codes that are not positive.\<close>

definition IsAducResultCodeFailure :: "ADUC_ResultCode \<Rightarrow> bool" where
  "IsAducResultCodeFailure c = (c = ADUC_Result_Failure \<or> c = ADUC_Result_Failure_Cancelled)"

definition FWU_READ_BLOCK_DEFSIZE :: nat where
  "FWU_READ_BLOCK_DEFSIZE = 1024"

text \<open>
  \<^verbatim>\<open>OTACtx_Reinit\<close>, given what \<^verbatim>\<open>get_secondary_bd()\<close> returns. The allocations and
  the erase are taken to succeed. The result is the new \<^verbatim>\<open>otaCtx_opaque\<close>
  (\<open>None\<close> with the return value \<^verbatim>\<open>false\<close>) and the store.
\<close>

definition OTACtx_Reinit ::
  "BlockDevice option \<Rightarrow> kv_store \<Rightarrow> OTA_OperationContext option \<times> kv_store" where
  "OTACtx_Reinit dev kv =
     (case nvImgUpgSt_reset False kv of
        (False, kv') \<Rightarrow> (None, kv')
      | (True, kv') \<Rightarrow>
          (case dev of
             None \<Rightarrow> (None, kv')
           | Some bd \<Rightarrow>
               if \<not> bd_init_ok bd then (None, kv')
               else
                 (let read_size = bd_read_size bd
                  in (Some \<lparr>fwu_active_image_header = replicate sizeof_image_header 0,
                            fwu_stage_image_header = replicate sizeof_image_header 0,
                            secondary_bd = Some (bd_erase_all bd),
                            secondary_bd_inited = True,
                            secondary_bd_progunit = True,
                            secondary_bd_progunit_size = bd_program_size bd,
                            secondary_bd_readblock = True,
                            secondary_bd_readblock_size =
                              (if FWU_READ_BLOCK_DEFSIZE < read_size then read_size
                               else FWU_READ_BLOCK_DEFSIZE),
                            dl_prog_offset = 0,
                            dl_prog_total_exp = 0,
                            dl_prog_total_act = 0\<rparr>, kv'))))"

subsection \<open>\<^verbatim>\<open>CombinedDownloadInstall\<close>\<close>

text \<open>
  The header block of \<^verbatim>\<open>CombinedDownloadInstall\<close> (``Catch MCUBOOT header at offset 0'').
  The first component is \<open>False\<close> where the source sets \<^verbatim>\<open>ADUC_Result_Failure\<close> and
  jumps to \<^verbatim>\<open>sofar\<close>.
\<close>

definition catch_image_header ::
  "OTA_OperationContext \<Rightarrow> kv_store \<Rightarrow> byte list \<Rightarrow> bool \<times> OTA_OperationContext \<times> kv_store" where
  "catch_image_header ctx kv dl_data =
     (if dl_prog_offset ctx < sizeof_image_header then
        (let image_header_offset = dl_prog_offset ctx;
             image_header_todo =
               (if sizeof_image_header - image_header_offset > length dl_data
                then length dl_data else sizeof_image_header - image_header_offset);
             hdr = memcpy_at (fwu_stage_image_header ctx) image_header_offset
                     (take image_header_todo dl_data);
             ctx1 = ctx\<lparr>fwu_stage_image_header := hdr\<rparr>
         in if image_header_offset + image_header_todo = sizeof_image_header then
              (if ih_magic hdr \<noteq> IMAGE_MAGIC then (False, ctx1, kv)
               else (case nvImgUpgSt_setStageVersion (ih_ver hdr) kv of
                       (ok, kv1) \<Rightarrow> (ok, ctx1, kv1)))
            else (True, ctx1, kv))
      else (True, ctx, kv))"

text \<open>
  The three programming steps. Each returns the fault of a failing assertion, or whether
  the device calls succeeded, the device, the advanced \<^verbatim>\<open>fwu_offset\<close> and the data not
  yet consumed (\<^verbatim>\<open>fwu_rmn\<close> is its length).
\<close>

definition program_first ::
  "BlockDevice \<Rightarrow> nat \<Rightarrow> nat \<Rightarrow> nat \<Rightarrow> byte list
     \<Rightarrow> fault + (bool \<times> BlockDevice \<times> nat \<times> byte list)" where
  "program_first bd progunit_size readblock_size fwu_offset fwu_data =
     (let fwu_rmn = length fwu_data;
          fwu_offset_alignup =
            ((fwu_offset + progunit_size - 1) div progunit_size) * progunit_size;
          fwu_todo = (if fwu_offset_alignup - fwu_offset > fwu_rmn then fwu_rmn
                      else fwu_offset_alignup - fwu_offset)
      in if \<not> progunit_size > fwu_todo then Inl AssertFailed
         else if fwu_todo = 0 then Inr (True, bd, fwu_offset, fwu_data)
         else
           (case bd_read_program_unit bd progunit_size readblock_size fwu_offset of
              Inl f \<Rightarrow> Inl f
            | Inr None \<Rightarrow> Inr (False, bd, fwu_offset, fwu_data)
            | Inr (Some progunit) \<Rightarrow>
                (let fwu_offset_first = (fwu_offset div progunit_size) * progunit_size;
                     fwu_data_first = memcpy_at progunit (fwu_offset - fwu_offset_first)
                                        (take fwu_todo fwu_data)
                 in case bd_program bd fwu_data_first fwu_offset_first progunit_size of
                      None \<Rightarrow> Inr (False, bd, fwu_offset, fwu_data)
                    | Some bd' \<Rightarrow>
                        Inr (True, bd', fwu_offset + fwu_todo, drop fwu_todo fwu_data))))"

definition program_aligned ::
  "BlockDevice \<Rightarrow> nat \<Rightarrow> nat \<Rightarrow> byte list \<Rightarrow> bool \<times> BlockDevice \<times> nat \<times> byte list" where
  "program_aligned bd progunit_size fwu_offset fwu_data =
     (let fwu_rmn = length fwu_data;
          fwu_todo = (fwu_rmn div progunit_size) * progunit_size
      in if fwu_todo = 0 then (True, bd, fwu_offset, fwu_data)
         else (case bd_program bd fwu_data fwu_offset fwu_todo of
                 None \<Rightarrow> (False, bd, fwu_offset, fwu_data)
               | Some bd' \<Rightarrow> (True, bd', fwu_offset + fwu_todo, drop fwu_todo fwu_data)))"

definition program_last ::
  "BlockDevice \<Rightarrow> nat \<Rightarrow> nat \<Rightarrow> nat \<Rightarrow> byte list
     \<Rightarrow> fault + (bool \<times> BlockDevice \<times> nat \<times> byte list)" where
  "program_last bd progunit_size readblock_size fwu_offset fwu_data =
     (let fwu_rmn = length fwu_data;
          fwu_todo = fwu_rmn
      in if fwu_todo = 0 then Inr (True, bd, fwu_offset, fwu_data)
         else if \<not> progunit_size > fwu_todo then Inl AssertFailed
         else
           (case bd_read_program_unit bd progunit_size readblock_size fwu_offset of
              Inl f \<Rightarrow> Inl f
            | Inr None \<Rightarrow> Inr (False, bd, fwu_offset, fwu_data)
            | Inr (Some progunit) \<Rightarrow>
                (let fwu_offset_last = fwu_offset;
                     fwu_data_last = memcpy_at progunit 0 (take fwu_todo fwu_data)
                 in case bd_program bd fwu_data_last fwu_offset_last progunit_size of
                      None \<Rightarrow> Inr (False, bd, fwu_offset, fwu_data)
                    | Some bd' \<Rightarrow>
                        Inr (True, bd', fwu_offset + fwu_todo, drop fwu_todo fwu_data))))"

text \<open>
  The block ``Write through BlockDevice program()'': the three steps in order, stopping at
  the first failure, and the closing \<^verbatim>\<open>MBED_ASSERT(fwu_rmn == 0)\<close>.
\<close>

definition program_chunk ::
  "BlockDevice \<Rightarrow> nat \<Rightarrow> nat \<Rightarrow> nat \<Rightarrow> byte list \<Rightarrow> fault + (bool \<times> BlockDevice)" where
  "program_chunk bd progunit_size readblock_size fwu_offset fwu_data =
     (case program_first bd progunit_size readblock_size fwu_offset fwu_data of
        Inl f \<Rightarrow> Inl f
      | Inr (False, bd1, _, _) \<Rightarrow> Inr (False, bd1)
      | Inr (True, bd1, off1, data1) \<Rightarrow>
          (case program_aligned bd1 progunit_size off1 data1 of
             (False, bd2, _, _) \<Rightarrow> Inr (False, bd2)
           | (True, bd2, off2, data2) \<Rightarrow>
               (case program_last bd2 progunit_size readblock_size off2 data2 of
                  Inl f \<Rightarrow> Inl f
                | Inr (False, bd3, _, _) \<Rightarrow> Inr (False, bd3)
                | Inr (True, bd3, _, data3) \<Rightarrow>
                    if length data3 \<noteq> 0 then Inl AssertFailed else Inr (True, bd3))))"

text \<open>
  \<^verbatim>\<open>CombinedDownloadInstall\<close>, on the handler's \<^verbatim>\<open>otaCtx_opaque\<close>, the store and
  one chunk. The result code is \<^verbatim>\<open>ADUC_Result_Download_Success\<close> or
  \<^verbatim>\<open>ADUC_Result_Failure\<close>; the download offset advances only on success.
\<close>

definition CombinedDownloadInstall ::
  "OTA_OperationContext option \<Rightarrow> kv_store \<Rightarrow> byte list
     \<Rightarrow> fault + (ADUC_ResultCode \<times> OTA_OperationContext option \<times> kv_store)" where
  "CombinedDownloadInstall otaCtx_opaque kv dl_data =
     (case otaCtx_opaque of
        None \<Rightarrow> Inl AssertFailed
      | Some ctx \<Rightarrow>
          (case catch_image_header ctx kv dl_data of
             (False, ctx1, kv1) \<Rightarrow> Inr (ADUC_Result_Failure, Some ctx1, kv1)
           | (True, ctx1, kv1) \<Rightarrow>
               (case secondary_bd ctx1 of
                  None \<Rightarrow> Inr (ADUC_Result_Failure, Some ctx1, kv1)
                | Some bd \<Rightarrow>
                    if \<not> secondary_bd_inited ctx1 then Inr (ADUC_Result_Failure, Some ctx1, kv1)
                    else if \<not> secondary_bd_progunit ctx1 then Inl AssertFailed
                    else if secondary_bd_progunit_size ctx1 = 0 then Inl AssertFailed
                    else
                      (case program_chunk bd (secondary_bd_progunit_size ctx1)
                              (secondary_bd_readblock_size ctx1) (dl_prog_offset ctx1) dl_data of
                         Inl f \<Rightarrow> Inl f
                       | Inr (False, bd') \<Rightarrow>
                           Inr (ADUC_Result_Failure, Some (ctx1\<lparr>secondary_bd := Some bd'\<rparr>), kv1)
                       | Inr (True, bd') \<Rightarrow>
                           Inr (ADUC_Result_Download_Success,
                                Some (ctx1\<lparr>secondary_bd := Some bd',
                                           dl_prog_offset := dl_prog_offset ctx1 + length dl_data\<rparr>),
                                kv1)))))"

text \<open>
  The body callback that \<^verbatim>\<open>Download\<close> hands to the HTTP request
  (\<^verbatim>\<open>CombinedDownloadInstallTask\<close>): after a failure, or when cancellation is requested,
  it cancels the transfer and returns without touching the chunk.
  \<open>deliver_chunks\<close> is the request calling it on each chunk of the body in order.
\<close>

definition CombinedDownloadInstallTask ::
  "bool \<Rightarrow> ADUC_ResultCode \<times> OTA_OperationContext option \<times> kv_store \<Rightarrow> byte list
     \<Rightarrow> fault + (ADUC_ResultCode \<times> OTA_OperationContext option \<times> kv_store)" where
  "CombinedDownloadInstallTask cancel_requested s dl_data =
     (case s of (result, otaCtx_opaque, kv) \<Rightarrow>
        if IsAducResultCodeFailure result \<or> cancel_requested then Inr s
        else CombinedDownloadInstall otaCtx_opaque kv dl_data)"

fun deliver_chunks ::
  "bool \<Rightarrow> ADUC_ResultCode \<times> OTA_OperationContext option \<times> kv_store \<Rightarrow> byte list list
     \<Rightarrow> fault + (ADUC_ResultCode \<times> OTA_OperationContext option \<times> kv_store)" where
  "deliver_chunks cancel_requested s [] = Inr s"
| "deliver_chunks cancel_requested s (c # cs) =
     (case CombinedDownloadInstallTask cancel_requested s c of
        Inl f \<Rightarrow> Inl f
      | Inr s' \<Rightarrow> deliver_chunks cancel_requested s' cs)"

subsection \<open>Device geometry\<close>

text \<open>
  The geometry under which the programming steps are shown to succeed: the context's
  program-unit size \<open>P\<close> is the device's program size and is positive, it divides the
  read-block size \<open>R\<close>, the device's read size divides \<open>R\<close>, and the device's size
  is a multiple of \<open>R\<close>.
\<close>

definition geometry_ok :: "BlockDevice \<Rightarrow> nat \<Rightarrow> nat \<Rightarrow> bool" where
  "geometry_ok bd P R =
     (0 < P \<and> bd_program_size bd = P \<and> P dvd R \<and> 0 < R \<and> bd_read_size bd dvd R
      \<and> R dvd length (bd_storage bd))"

text \<open>
  A context in the middle of a download whose chunks so far are \<open>sofar\<close>: the device is
  present, initialised and of the geometry above, the program-unit buffer is allocated, the
  download offset is the number of bytes delivered, and the cached header holds the bytes
  delivered so far, up to the header's size.
\<close>

definition staging_ready :: "OTA_OperationContext \<Rightarrow> byte list \<Rightarrow> bool" where
  "staging_ready ctx sofar =
     ((\<exists>bd. secondary_bd ctx = Some bd
            \<and> geometry_ok bd (secondary_bd_progunit_size ctx) (secondary_bd_readblock_size ctx))
      \<and> secondary_bd_inited ctx \<and> secondary_bd_progunit ctx
      \<and> dl_prog_offset ctx = length sofar
      \<and> length (fwu_stage_image_header ctx) = sizeof_image_header
      \<and> take (length sofar) (fwu_stage_image_header ctx) = take sizeof_image_header sofar)"

subsection \<open>\<^verbatim>\<open>Apply\<close>\<close>

text \<open>
  What \<^verbatim>\<open>Apply\<close> and \<^verbatim>\<open>Cancel\<close> use of the workflow handle:
  the \<^verbatim>\<open>installedCriteria\<close> handler property (\<open>None\<close> for a null pointer), the
  cancellation flag, whether \<^verbatim>\<open>workflow_request_cancel\<close> succeeds, and the reboot
  request that \<^verbatim>\<open>workflow_request_reboot\<close> records.
\<close>

record workflow =
  installed_criteria :: "byte list option"
  cancel_requested :: bool
  request_cancel_ok :: bool
  reboot_requested :: bool

definition IsNullOrEmpty :: "byte list option \<Rightarrow> bool" where
  "IsNullOrEmpty s = (case s of None \<Rightarrow> True | Some cs \<Rightarrow> takeWhile (\<lambda>c. c \<noteq> 0) cs = [])"

definition Cancel :: "workflow \<Rightarrow> ADUC_ResultCode \<times> workflow" where
  "Cancel wd =
     (if request_cancel_ok wd then (ADUC_Result_Cancel_Success, wd\<lparr>cancel_requested := True\<rparr>)
      else (ADUC_Result_Cancel_UnableToCancel, wd))"

text \<open>
  \<^verbatim>\<open>MCUbUpdateHandlerImpl::Apply\<close>. The first argument is the handler's
  \<^verbatim>\<open>otaCtx_opaque\<close>, the only state a preceding \<^verbatim>\<open>Download\<close> leaves in the handler;
  the method does not read it.
\<close>

definition Apply ::
  "OTA_OperationContext option \<Rightarrow> workflow \<Rightarrow> kv_store \<Rightarrow> bootloader
     \<Rightarrow> ADUC_ResultCode \<times> workflow \<times> kv_store \<times> bootloader" where
  "Apply otaCtx_opaque wd kv bl =
     (if IsNullOrEmpty (installed_criteria wd) then (ADUC_Result_Failure, wd, kv, bl)
      else if cancel_requested wd then
        (case Cancel wd of (result, wd1) \<Rightarrow> (result, wd1, kv, bl))
      else
        (case nvImgUpgSt_setStageInstalledCriteria (the (installed_criteria wd)) kv of
           (False, kv1) \<Rightarrow> (ADUC_Result_Failure, wd, kv1, bl)
         | (True, kv1) \<Rightarrow>
             (case boot_set_pending False bl of
                (False, bl1) \<Rightarrow> (ADUC_Result_Failure, wd, kv1, bl1)
              | (True, bl1) \<Rightarrow>
                  (case nvImgUpgSt_setInstallRebooted False kv1 of
                     (False, kv2) \<Rightarrow> (ADUC_Result_Failure, wd, kv2, bl1)
                   | (True, kv2) \<Rightarrow>
                       (ADUC_Result_Apply_RequiredReboot,
                        wd\<lparr>reboot_requested := True\<rparr>, kv2, bl1)))))"

subsection \<open>\<^verbatim>\<open>VerifySignature\<close>\<close>

text \<open>
  The file entity of the update manifest, as far as \<^verbatim>\<open>VerifySignature\<close> reads it:
  the hash array (\<^verbatim>\<open>Hash\<close> with \<^verbatim>\<open>HashCount\<close> entries, each a type and a
  Base64 value, either of which may be a null pointer) and \<^verbatim>\<open>SizeInBytes\<close>.
\<close>

record ADUC_Hash =
  hash_value :: "string option"
  hash_type :: "string option"

record ADUC_FileEntity =
  Hash :: "ADUC_Hash list"
  SizeInBytes :: nat

definition HashCount :: "ADUC_FileEntity \<Rightarrow> nat" where
  "HashCount fileEntity = length (Hash fileEntity)"

definition ADUC_HashUtils_GetHashType :: "ADUC_Hash list \<Rightarrow> nat \<Rightarrow> nat \<Rightarrow> string option" where
  "ADUC_HashUtils_GetHashType hashArray arraySize index =
     (if index \<ge> arraySize \<or> index \<ge> length hashArray then None
      else hash_type (hashArray ! index))"

definition ADUC_HashUtils_GetHashValue :: "ADUC_Hash list \<Rightarrow> nat \<Rightarrow> nat \<Rightarrow> string option" where
  "ADUC_HashUtils_GetHashValue hashArray arraySize index =
     (if index \<ge> arraySize \<or> index \<ge> length hashArray then None
      else hash_value (hashArray ! index))"

datatype SHAversion = SHA1 | SHA224 | SHA256 | SHA384 | SHA512

text \<open>
  The hash library is a parameter: the type-string lookup of the agent's hash utilities,
  the streaming \<^verbatim>\<open>USHAReset\<close>, \<^verbatim>\<open>USHAInput\<close>, \<^verbatim>\<open>USHAResult\<close> over a context of
  type \<open>'s\<close>, and the Base64 encoder; \<open>None\<close> is a reported error.
\<close>

record 's sha_lib =
  GetShaVersionForTypeString :: "string \<Rightarrow> SHAversion option"
  USHAReset :: "SHAversion \<Rightarrow> 's option"
  USHAInput :: "'s \<Rightarrow> byte list \<Rightarrow> 's option"
  USHAResult :: "'s \<Rightarrow> byte list option"
  Base64_Encode_Bytes :: "byte list \<Rightarrow> string option"

text \<open>
  The loop over whole read blocks. The result tells whether every call succeeded, the
  offset and the remaining length where the loop stopped, the hash context, and the reads
  issued so far as (address, size) pairs. The loop is entered after
  \<^verbatim>\<open>MBED_ASSERT(secondary_bd_readblock_size)\<close>; the test \<open>readblock_size = 0\<close> restates
  that assertion, without which the source would not leave the loop.
\<close>

function hash_whole_blocks ::
  "'s sha_lib \<Rightarrow> BlockDevice \<Rightarrow> nat \<Rightarrow> nat \<Rightarrow> nat \<Rightarrow> 's \<Rightarrow> (nat \<times> nat) list
     \<Rightarrow> bool \<times> nat \<times> nat \<times> 's \<times> (nat \<times> nat) list" where
  "hash_whole_blocks lib bd readblock_size fwu_offset fwu_rmn sha reads =
     (if fwu_rmn = 0 \<or> readblock_size = 0 then (True, fwu_offset, fwu_rmn, sha, reads)
      else
        (let fwu_todo = (if fwu_rmn > readblock_size then readblock_size else fwu_rmn)
         in if fwu_todo < readblock_size then (True, fwu_offset, fwu_rmn, sha, reads)
            else
              (case bd_read bd fwu_offset fwu_todo of
                 None \<Rightarrow> (False, fwu_offset, fwu_rmn, sha, reads @ [(fwu_offset, fwu_todo)])
               | Some fwu_data \<Rightarrow>
                   (case USHAInput lib sha fwu_data of
                      None \<Rightarrow> (False, fwu_offset, fwu_rmn, sha, reads @ [(fwu_offset, fwu_todo)])
                    | Some sha' \<Rightarrow>
                        hash_whole_blocks lib bd readblock_size (fwu_offset + fwu_todo)
                          (fwu_rmn - fwu_todo) sha' (reads @ [(fwu_offset, fwu_todo)])))))"
  by pat_completeness auto
termination
  by (relation "measure (\<lambda>(lib, bd, readblock_size, fwu_offset, fwu_rmn, sha, reads). fwu_rmn)")
     (auto split: if_splits)

text \<open>
  \<^verbatim>\<open>VerifySignature\<close>: the fault of a failing assertion, or the returned
  \<^verbatim>\<open>bool\<close> together with the reads issued to the secondary device.
\<close>

definition VerifySignature ::
  "'s sha_lib \<Rightarrow> OTA_OperationContext option \<Rightarrow> ADUC_FileEntity
     \<Rightarrow> fault + (bool \<times> (nat \<times> nat) list)" where
  "VerifySignature lib otaCtx_opaque fileEntity =
     (case otaCtx_opaque of
        None \<Rightarrow> Inl AssertFailed
      | Some ctx \<Rightarrow>
          if HashCount fileEntity \<noteq> 0 then
            (case ADUC_HashUtils_GetHashType (Hash fileEntity) (HashCount fileEntity) 0 of
               None \<Rightarrow> Inr (False, [])
             | Some hashType \<Rightarrow>
             (case GetShaVersionForTypeString lib hashType of
               None \<Rightarrow> Inr (False, [])
             | Some shaVersion \<Rightarrow>
             (case USHAReset lib shaVersion of
               None \<Rightarrow> Inr (False, [])
             | Some shaCtx \<Rightarrow>
             (case secondary_bd ctx of
               None \<Rightarrow> Inl AssertFailed
             | Some bd \<Rightarrow>
                 if \<not> secondary_bd_inited ctx \<or> \<not> secondary_bd_readblock ctx
                    \<or> secondary_bd_readblock_size ctx = 0 then Inl AssertFailed
                 else
                   (case hash_whole_blocks lib bd (secondary_bd_readblock_size ctx) 0
                           (SizeInBytes fileEntity) shaCtx [] of
                      (False, _, _, _, reads) \<Rightarrow> Inr (False, reads)
                    | (True, fwu_offset, fwu_rmn, shaCtx1, reads) \<Rightarrow>
                        (case
                           (if fwu_rmn \<noteq> 0 then
                              (case bd_read bd fwu_offset (secondary_bd_readblock_size ctx) of
                                 None \<Rightarrow> None
                               | Some fwu_data \<Rightarrow> USHAInput lib shaCtx1 (take fwu_rmn fwu_data))
                            else Some shaCtx1,
                            if fwu_rmn \<noteq> 0
                            then reads @ [(fwu_offset, secondary_bd_readblock_size ctx)]
                            else reads) of
                           (None, reads1) \<Rightarrow> Inr (False, reads1)
                         | (Some shaCtx2, reads1) \<Rightarrow>
                             (case USHAResult lib shaCtx2 of
                                None \<Rightarrow> Inr (False, reads1)
                              | Some shaDigest \<Rightarrow>
                              (case Base64_Encode_Bytes lib shaDigest of
                                None \<Rightarrow> Inr (False, reads1)
                              | Some shaDigestBase64 \<Rightarrow>
                              (case ADUC_HashUtils_GetHashValue (Hash fileEntity)
                                      (HashCount fileEntity) 0 of
                                None \<Rightarrow> Inr (False, reads1)
                              | Some hashValueBase64 \<Rightarrow>
                                  if hashValueBase64 \<noteq> shaDigestBase64 then Inr (False, reads1)
                                  else Inr (True, reads1))))))))))
          else Inr (True, []))"

subsection \<open>Example configurations\<close>

text \<open>
  Concrete devices, stores and contexts at which the properties below are evaluated: an
  erased 1024-byte device with 16-byte program units, an erased 2048-byte device with a
  single 2048-byte program unit, a store holding the all-zero record, and the contexts that
  \<^verbatim>\<open>OTACtx_Reinit\<close> builds for the two devices.
\<close>

definition demo_device :: BlockDevice where
  "demo_device = \<lparr>bd_storage = replicate 1024 255, bd_read_size = 1, bd_program_size = 16,
                   bd_erase_value = 255, bd_init_ok = True\<rparr>"

definition coarse_device :: BlockDevice where
  "coarse_device = \<lparr>bd_storage = replicate 2048 255, bd_read_size = 1, bd_program_size = 2048,
                     bd_erase_value = 255, bd_init_ok = True\<rparr>"

definition demo_store :: kv_store where
  "demo_store = \<lparr>kv_value = Some (replicate 152 0), kv_writable = True\<rparr>"

definition demo_ctx :: OTA_OperationContext where
  "demo_ctx = \<lparr>fwu_active_image_header = replicate 32 0,
                fwu_stage_image_header = replicate 32 0,
                secondary_bd = Some demo_device,
                secondary_bd_inited = True,
                secondary_bd_progunit = True,
                secondary_bd_progunit_size = 16,
                secondary_bd_readblock = True,
                secondary_bd_readblock_size = 1024,
                dl_prog_offset = 0,
                dl_prog_total_exp = 0,
                dl_prog_total_act = 0\<rparr>"

definition coarse_ctx :: OTA_OperationContext where
  "coarse_ctx = demo_ctx\<lparr>secondary_bd := Some coarse_device, secondary_bd_progunit_size := 2048\<rparr>"

definition demo_bootloader :: bootloader where
  "demo_bootloader = \<lparr>primary_header = replicate 32 0, flash_area_open_ok = True,
                       image_ok = Some 3, confirm_effective = True, set_pending_ok = True,
                       secondary_pending = False\<rparr>"

section \<open>Properties of the persistent upgrade-state store\<close>

lemmas NVImgUpgSt_layout =
  INSTALLEDCRITERIA_MAXCHAR_def sizeof_image_version_def sizeof_NVImgUpgSt_def
  off_stageVersion_valid_def off_stageVersion_def off_installRebooted_valid_def
  off_installRebooted_def off_stageInstalledCriteria_valid_def
  off_stageInstalledCriteria_def off_reserved_def
  off_persistentInstalledCriteria_valid_def off_persistentInstalledCriteria_def

lemma getAll_stored:
  "kv_value kv = Some st \<Longrightarrow> length st = sizeof_NVImgUpgSt \<Longrightarrow> nvImgUpgSt_getAll kv = Some st"
  by (simp add: nvImgUpgSt_getAll_def)

lemma getAll_length:
  "nvImgUpgSt_getAll kv = Some st \<Longrightarrow> length st = sizeof_NVImgUpgSt"
  by (auto simp: nvImgUpgSt_getAll_def Let_def split: option.splits if_splits)

lemma memset_zero_nth_lt: "i < n \<Longrightarrow> memset_zero st n ! i = 0"
  by (simp add: memset_zero_def nth_append)

lemma memset_zero_nth_ge: "n \<le> i \<Longrightarrow> n \<le> length st \<Longrightarrow> memset_zero st n ! i = st ! i"
  by (simp add: memset_zero_def nth_append)

lemma memset_zero_length: "n \<le> length st \<Longrightarrow> length (memset_zero st n) = length st"
  by (simp add: memset_zero_def)

text \<open>
  Claim C3 (reserved-region frame condition of \<^verbatim>\<open>nvImgUpgSt_reset\<close>). For every stored
  record \<open>st\<close> of the record's size in a store that accepts the write:
  \<^verbatim>\<open>nvImgUpgSt_reset(true)\<close> writes back the record of all zero bytes, and
  \<^verbatim>\<open>nvImgUpgSt_reset(false)\<close> writes back a record of the same size whose bytes before
  the offset of \<^verbatim>\<open>reserved\<close> are zero and whose bytes from that offset on are those of
  \<open>st\<close>.
\<close>

theorem reset_frame:
  assumes "kv_value kv = Some st" and "length st = sizeof_NVImgUpgSt" and "kv_writable kv"
  shows "nvImgUpgSt_reset True kv = (True, kv\<lparr>kv_value := Some (replicate sizeof_NVImgUpgSt 0)\<rparr>)
       \<and> (\<exists>st'. nvImgUpgSt_reset False kv = (True, kv\<lparr>kv_value := Some st'\<rparr>)
              \<and> st' = replicate off_reserved 0 @ drop off_reserved st
              \<and> length st' = sizeof_NVImgUpgSt
              \<and> (\<forall>i < off_reserved. st' ! i = 0)
              \<and> (\<forall>i. off_reserved \<le> i \<and> i < sizeof_NVImgUpgSt \<longrightarrow> st' ! i = st ! i))"
proof -
  have g: "nvImgUpgSt_getAll kv = Some st"
    using assms by (simp add: getAll_stored)
  have le: "off_reserved \<le> length st"
    using assms by (simp add: NVImgUpgSt_layout)
  have a: "nvImgUpgSt_reset True kv = (True, kv\<lparr>kv_value := Some (replicate sizeof_NVImgUpgSt 0)\<rparr>)"
    using assms by (simp add: nvImgUpgSt_reset_def nvImgUpgSt_setAll_def)
  have b: "nvImgUpgSt_reset False kv = (True, kv\<lparr>kv_value := Some (memset_zero st off_reserved)\<rparr>)"
    using assms g by (simp add: nvImgUpgSt_reset_def nvImgUpgSt_setAll_def)
  show ?thesis
    using a b le assms(2)
    by (auto simp: memset_zero_nth_lt memset_zero_nth_ge memset_zero_length
             simp flip: memset_zero_def)
qed

theorem reset_frame_witness:
  "kv_value \<lparr>kv_value = Some (replicate 152 7), kv_writable = True\<rparr> = Some (replicate 152 7)
   \<and> length (replicate 152 (7::byte)) = sizeof_NVImgUpgSt
   \<and> kv_writable \<lparr>kv_value = Some (replicate 152 7), kv_writable = True\<rparr>
   \<and> nvImgUpgSt_reset False \<lparr>kv_value = Some (replicate 152 7), kv_writable = True\<rparr>
       = (True, \<lparr>kv_value = Some (replicate 80 0 @ replicate 72 7), kv_writable = True\<rparr>)
   \<and> nvImgUpgSt_reset True \<lparr>kv_value = Some (replicate 152 7), kv_writable = True\<rparr>
       = (True, \<lparr>kv_value = Some (replicate 152 0), kv_writable = True\<rparr>)"
  using reset_frame [of "\<lparr>kv_value = Some (replicate 152 7), kv_writable = True\<rparr>" "replicate 152 7"]
  by (simp add: NVImgUpgSt_layout)

text \<open>
  Claim C10 (reset on an unreadable record). When \<^verbatim>\<open>nvImgUpgSt_getAll\<close> fails
  (\<^verbatim>\<open>kv_get\<close> reports an error, or fewer bytes than the record's size come back),
  \<^verbatim>\<open>nvImgUpgSt_reset(false)\<close> hands \<^verbatim>\<open>nvImgUpgSt_setAll\<close> the record of all zero
  bytes: the reserved region is zero as well,
  \<^verbatim>\<open>persistentInstalledCriteria_valid\<close> is false and
  \<^verbatim>\<open>persistentInstalledCriteria\<close> is the empty string. In a store that accepts the
  write, that record is what is stored afterwards.
\<close>

theorem reset_unreadable_zeroes_all:
  assumes "nvImgUpgSt_getAll kv = None"
  shows "nvImgUpgSt_reset False kv = nvImgUpgSt_setAll (replicate sizeof_NVImgUpgSt 0) kv
       \<and> (kv_writable kv \<longrightarrow>
            nvImgUpgSt_reset False kv
              = (True, kv\<lparr>kv_value := Some (replicate sizeof_NVImgUpgSt 0)\<rparr>))
       \<and> (\<forall>i < sizeof_NVImgUpgSt. replicate sizeof_NVImgUpgSt (0::byte) ! i = 0)
       \<and> \<not> persistentInstalledCriteria_valid (replicate sizeof_NVImgUpgSt 0)
       \<and> c_string_at (replicate sizeof_NVImgUpgSt 0) off_persistentInstalledCriteria = []"
  using assms
  by (simp add: nvImgUpgSt_reset_def nvImgUpgSt_setAll_def persistentInstalledCriteria_valid_def
        bool_at_def c_string_at_def NVImgUpgSt_layout)

theorem reset_unreadable_zeroes_all_witness:
  "nvImgUpgSt_getAll \<lparr>kv_value = Some (replicate 100 7), kv_writable = True\<rparr> = None
   \<and> nvImgUpgSt_reset False \<lparr>kv_value = Some (replicate 100 7), kv_writable = True\<rparr>
       = (True, \<lparr>kv_value = Some (replicate 152 0), kv_writable = True\<rparr>)"
  using reset_unreadable_zeroes_all [of "\<lparr>kv_value = Some (replicate 100 7), kv_writable = True\<rparr>"]
  by (simp add: nvImgUpgSt_getAll_def nvImgUpgSt_setAll_def NVImgUpgSt_layout)

lemma c_strlen_split:
  assumes "c_strlen obj off = Inr len"
  shows "\<exists>rest. drop off obj = c_string_at obj off @ 0 # rest \<and> length (c_string_at obj off) = len
          \<and> 0 \<notin> set (c_string_at obj off)"
proof -
  let ?xs = "drop off obj"
  let ?P = "\<lambda>c::byte. c \<noteq> 0"
  from assms have mem: "0 \<in> set ?xs" and len: "length (takeWhile ?P ?xs) = len"
    by (auto simp: c_strlen_def split: if_splits)
  have "dropWhile ?P ?xs \<noteq> []"
    using mem by (simp add: dropWhile_eq_Nil_conv) 
  then obtain y ys where d: "dropWhile ?P ?xs = y # ys"
    by (cases "dropWhile ?P ?xs") auto
  then have "\<not> ?P y"
    using hd_dropWhile [of ?P ?xs] by auto
  then have y: "y = 0" by simp
  have "?xs = takeWhile ?P ?xs @ dropWhile ?P ?xs" by simp
  then have "?xs = takeWhile ?P ?xs @ 0 # ys" using d y by simp
  moreover have "0 \<notin> set (takeWhile ?P ?xs)"
    using set_takeWhileD by fastforce
  ultimately show ?thesis
    using len by (auto simp: c_string_at_def)
qed

lemma takeWhile_nonzero_stop:
  "(0::byte) \<notin> set xs \<Longrightarrow> takeWhile (\<lambda>c. c \<noteq> 0) (xs @ 0 # ys) = xs"
  by (induction xs) auto

lemma settled_record_facts:
  assumes L: "length st = sizeof_NVImgUpgSt"
      and S: "c_strlen st off_stageInstalledCriteria = Inr len"
      and M: "len \<le> INSTALLEDCRITERIA_MAXCHAR"
  shows "length (settled_record st len) = sizeof_NVImgUpgSt"
    and "c_string_at (settled_record st len) off_persistentInstalledCriteria
           = c_string_at st off_stageInstalledCriteria"
    and "persistentInstalledCriteria_valid (settled_record st len)"
    and "\<not> stageInstalledCriteria_valid (settled_record st len)"
    and "take (INSTALLEDCRITERIA_MAXCHAR + 1) (drop off_stageInstalledCriteria (settled_record st len))
           = replicate (INSTALLEDCRITERIA_MAXCHAR + 1) 0"
    and "take off_stageInstalledCriteria_valid (settled_record st len)
           = take off_stageInstalledCriteria_valid st"
    and "take 4 (drop off_reserved (settled_record st len)) = take 4 (drop off_reserved st)"
proof -
  from c_strlen_split [OF S] obtain rest where
    d: "drop 15 st = c_string_at st 15 @ 0 # rest"
    and l: "length (c_string_at st 15) = len"
    and z: "0 \<notin> set (c_string_at st 15)"
    by (auto simp: off_stageInstalledCriteria_def)
  define src where "src = take (len + 1) (drop 15 st)"
  have src: "src = c_string_at st 15 @ [0]"
    unfolding src_def using d l by simp
  have lsrc: "length src = len + 1" using src l by simp
  have l15: "len \<le> 64" using M by (simp add: NVImgUpgSt_layout)
  have L': "length st = 152" using L by (simp add: NVImgUpgSt_layout)
  define Y where "Y = (memcpy_at st 85 src)[84 := 1, 14 := 0]"
  have lY: "length Y = 152"
    using L' l15 lsrc by (simp add: Y_def memcpy_at_def)
  have SR: "settled_record st len = take 15 Y @ replicate 65 0 @ drop 80 Y"
    by (simp add: settled_record_def Y_def src_def memcpy_at_def NVImgUpgSt_layout)
  show "length (settled_record st len) = sizeof_NVImgUpgSt"
    using lY by (simp add: SR NVImgUpgSt_layout)
  have d85: "drop 85 (settled_record st len) = src @ drop (86 + len) st"
    using lY L' l15 lsrc by (simp add: SR Y_def memcpy_at_def)
  show "c_string_at (settled_record st len) off_persistentInstalledCriteria
           = c_string_at st off_stageInstalledCriteria"
    using d85 z
    by (simp add: c_string_at_def [of "settled_record st len"] src
          takeWhile_nonzero_stop NVImgUpgSt_layout)
  have n84: "settled_record st len ! 84 = 1"
    using lY L' l15 lsrc by (simp add: SR Y_def memcpy_at_def nth_append nth_list_update)
  then show "persistentInstalledCriteria_valid (settled_record st len)"
    by (simp add: persistentInstalledCriteria_valid_def bool_at_def NVImgUpgSt_layout)
  have n14: "settled_record st len ! 14 = 0"
    using lY L' l15 lsrc by (simp add: SR Y_def memcpy_at_def nth_append nth_list_update)
  then show "\<not> stageInstalledCriteria_valid (settled_record st len)"
    by (simp add: stageInstalledCriteria_valid_def bool_at_def NVImgUpgSt_layout)
  show "take (INSTALLEDCRITERIA_MAXCHAR + 1) (drop off_stageInstalledCriteria (settled_record st len))
           = replicate (INSTALLEDCRITERIA_MAXCHAR + 1) 0" 
    using lY by (simp add: SR NVImgUpgSt_layout)
  show "take off_stageInstalledCriteria_valid (settled_record st len)
           = take off_stageInstalledCriteria_valid st"
    using lY L' l15 lsrc by (simp add: SR Y_def memcpy_at_def NVImgUpgSt_layout)
  show "take 4 (drop off_reserved (settled_record st len)) = take 4 (drop off_reserved st)"
    using lY L' l15 lsrc by (simp add: SR Y_def memcpy_at_def NVImgUpgSt_layout take_drop)
qed


text \<open>
  Claim C4 (contract of \<^verbatim>\<open>nvImgUpgSt_settleInstalledCriteria\<close>). For every stored record
  \<open>st\<close> of the record's size: when \<^verbatim>\<open>stageInstalledCriteria_valid\<close> is false the
  routine returns \<^verbatim>\<open>false\<close> and the store is unchanged; when it is true and the
  staged string has a length \<open>len\<close> of at most \<^verbatim>\<open>INSTALLEDCRITERIA_MAXCHAR\<close>, the
  routine returns what writing \<open>settled_record st len\<close> back returns (in a store that
  accepts the write: \<^verbatim>\<open>true\<close>, with that record stored), and in that record
  \<^verbatim>\<open>persistentInstalledCriteria\<close> is the string that was staged,
  \<^verbatim>\<open>persistentInstalledCriteria_valid\<close> is set, \<^verbatim>\<open>stageInstalledCriteria_valid\<close>
  is clear and the whole \<^verbatim>\<open>stageInstalledCriteria\<close> array is zero.
\<close>

theorem settle_contract:
  assumes "kv_value kv = Some st" and "length st = sizeof_NVImgUpgSt"
  shows "(\<not> stageInstalledCriteria_valid st \<longrightarrow>
            nvImgUpgSt_settleInstalledCriteria kv = Inr (False, kv))
       \<and> (\<forall>len. stageInstalledCriteria_valid st
              \<and> c_strlen st off_stageInstalledCriteria = Inr len
              \<and> len \<le> INSTALLEDCRITERIA_MAXCHAR \<longrightarrow>
            nvImgUpgSt_settleInstalledCriteria kv
              = Inr (nvImgUpgSt_setAll (settled_record st len) kv)
            \<and> (kv_writable kv \<longrightarrow>
                 nvImgUpgSt_settleInstalledCriteria kv
                   = Inr (True, kv\<lparr>kv_value := Some (settled_record st len)\<rparr>))
            \<and> length (settled_record st len) = sizeof_NVImgUpgSt
            \<and> c_string_at (settled_record st len) off_persistentInstalledCriteria
                  = c_string_at st off_stageInstalledCriteria
            \<and> persistentInstalledCriteria_valid (settled_record st len)
            \<and> \<not> stageInstalledCriteria_valid (settled_record st len)
            \<and> take (INSTALLEDCRITERIA_MAXCHAR + 1)
                    (drop off_stageInstalledCriteria (settled_record st len))
                  = replicate (INSTALLEDCRITERIA_MAXCHAR + 1) 0)"
proof -
  have g: "nvImgUpgSt_getAll kv = Some st"
    using assms by (rule getAll_stored)
  have a: "\<not> stageInstalledCriteria_valid st \<longrightarrow>
            nvImgUpgSt_settleInstalledCriteria kv = Inr (False, kv)"
    using g by (simp add: nvImgUpgSt_settleInstalledCriteria_def)
  have b: "nvImgUpgSt_settleInstalledCriteria kv
              = Inr (nvImgUpgSt_setAll (settled_record st len) kv)"
    if "stageInstalledCriteria_valid st" "c_strlen st off_stageInstalledCriteria = Inr len"
       "len \<le> INSTALLEDCRITERIA_MAXCHAR" for len
    using g that by (simp add: nvImgUpgSt_settleInstalledCriteria_def)
  show ?thesis
    using a b settled_record_facts [OF assms(2)]
    by (auto simp: nvImgUpgSt_setAll_def)
qed

theorem settle_contract_witness:
  "kv_value \<lparr>kv_value = Some (replicate 14 0 @ [1, 118, 50] @ replicate 135 0),
              kv_writable = True\<rparr> = Some (replicate 14 0 @ [1, 118, 50] @ replicate 135 0)
   \<and> length (replicate 14 0 @ [1, 118, 50] @ replicate 135 (0::byte)) = sizeof_NVImgUpgSt
   \<and> stageInstalledCriteria_valid (replicate 14 0 @ [1, 118, 50] @ replicate 135 0)
   \<and> c_strlen (replicate 14 0 @ [1, 118, 50] @ replicate 135 0) off_stageInstalledCriteria = Inr 2
   \<and> (2::nat) \<le> INSTALLEDCRITERIA_MAXCHAR
   \<and> nvImgUpgSt_settleInstalledCriteria
        \<lparr>kv_value = Some (replicate 14 0 @ [1, 118, 50] @ replicate 135 0), kv_writable = True\<rparr>
       = Inr (True, \<lparr>kv_value = Some (replicate 84 0 @ [1, 118, 50] @ replicate 65 0),
                          kv_writable = True\<rparr>)"
proof -
  let ?st = "replicate 14 0 @ [1, 118, 50] @ replicate 135 (0::byte)"
  let ?kv = "\<lparr>kv_value = Some ?st, kv_writable = True\<rparr>"
  have v: "stageInstalledCriteria_valid ?st"
    by (simp add: stageInstalledCriteria_valid_def bool_at_def nth_append NVImgUpgSt_layout)
  have s: "c_strlen ?st off_stageInstalledCriteria = Inr 2"
    by (simp add: c_strlen_def NVImgUpgSt_layout)
  have r: "settled_record ?st 2 = replicate 84 0 @ [1, 118, 50] @ replicate 65 0"
    by code_simp
  show ?thesis
    using settle_contract [of ?kv ?st] v s r
    by (simp add: NVImgUpgSt_layout nvImgUpgSt_setAll_def)
qed


text \<open>
  Claim C5 (the two-source check of \<^verbatim>\<open>nvImgUpgSt_installed\<close>), as amended. For every
  stored record of the record's size and every bootloader state, the query returns
  \<^verbatim>\<open>true\<close> exactly when \<^verbatim>\<open>installRebooted\<close> is valid and true,
  \<^verbatim>\<open>stageVersion\<close> is valid and equal to the version of the primary image's header,
  and \<^verbatim>\<open>flash_area_open\<close> on the primary slot succeeds; it then reports
  \<open>confirmed\<close> exactly when \<^verbatim>\<open>boot_read_image_ok\<close> succeeds and yields
  \<^verbatim>\<open>BOOT_FLAG_SET\<close>. In every other case it returns \<^verbatim>\<open>false\<close> and reports nothing.
\<close>

theorem installed_two_source:
  assumes "kv_value kv = Some st" and "length st = sizeof_NVImgUpgSt"
  shows "nvImgUpgSt_installed kv bl =
           (if installRebooted_valid st \<and> installRebooted st \<and> stageVersion_valid st
               \<and> stageVersion st = ih_ver (primary_header bl) \<and> flash_area_open_ok bl
            then Some (image_ok bl = Some BOOT_FLAG_SET) else None)"
proof -
  have g: "nvImgUpgSt_getAll kv = Some st"
    using assms by (rule getAll_stored)
  show ?thesis
    using g by (auto simp: nvImgUpgSt_installed_def Let_def BOOT_FLAG_SET_def BOOT_FLAG_UNSET_def
                     split: option.splits)
qed

theorem installed_two_source_witness:
  "kv_value \<lparr>kv_value = Some ([1] @ replicate 11 0 @ [1, 1] @ replicate 138 0), kv_writable = True\<rparr>
     = Some ([1] @ replicate 11 0 @ [1, 1] @ replicate 138 0)
   \<and> length ([1] @ replicate 11 0 @ [1, 1] @ replicate 138 (0::byte)) = sizeof_NVImgUpgSt
   \<and> nvImgUpgSt_installed
        \<lparr>kv_value = Some ([1] @ replicate 11 0 @ [1, 1] @ replicate 138 0), kv_writable = True\<rparr>
        \<lparr>primary_header = replicate 32 0, flash_area_open_ok = True, image_ok = Some 1,
           confirm_effective = True, set_pending_ok = True, secondary_pending = False\<rparr>
      = Some True"
proof -
  let ?st = "[1] @ replicate 11 0 @ [1, 1] @ replicate 138 (0::byte)"
  have "installRebooted_valid ?st" "installRebooted ?st" "stageVersion_valid ?st"
       "stageVersion ?st = ih_ver (replicate 32 0)"
    by (simp_all add: installRebooted_valid_def installRebooted_def stageVersion_valid_def
          stageVersion_def ih_ver_def bool_at_def nth_append off_ih_ver_def NVImgUpgSt_layout)
  then show ?thesis
    using installed_two_source [of
        "\<lparr>kv_value = Some ?st, kv_writable = True\<rparr>" ?st
        "\<lparr>primary_header = replicate 32 0, flash_area_open_ok = True, image_ok = Some 1,
           confirm_effective = True, set_pending_ok = True, secondary_pending = False\<rparr>"]
    by (simp add: BOOT_FLAG_SET_def NVImgUpgSt_layout)
qed

text \<open>
  The claim as stated (matching versions make the query return \<^verbatim>\<open>true\<close> with the
  bootloader's flag) fails when \<^verbatim>\<open>flash_area_open\<close> fails: the record below is
  rebooted, its stage version is valid and equal to the running version, the image-ok flag is
  set, and the query returns \<^verbatim>\<open>false\<close>.
\<close>

theorem installed_flash_open_counterexample:
  "installRebooted_valid ([1] @ replicate 11 0 @ [1, 1] @ replicate 138 0)
   \<and> installRebooted ([1] @ replicate 11 0 @ [1, 1] @ replicate 138 0)
   \<and> stageVersion_valid ([1] @ replicate 11 0 @ [1, 1] @ replicate 138 0)
   \<and> stageVersion ([1] @ replicate 11 0 @ [1, 1] @ replicate 138 0) = ih_ver (replicate 32 0)
   \<and> nvImgUpgSt_installed
        \<lparr>kv_value = Some ([1] @ replicate 11 0 @ [1, 1] @ replicate 138 0), kv_writable = True\<rparr>
        \<lparr>primary_header = replicate 32 0, flash_area_open_ok = False,
           image_ok = Some BOOT_FLAG_SET,
           confirm_effective = True, set_pending_ok = True, secondary_pending = False\<rparr>
      = None"
  by (simp add: installRebooted_valid_def installRebooted_def stageVersion_valid_def
        stageVersion_def ih_ver_def bool_at_def nth_append off_ih_ver_def NVImgUpgSt_layout
        nvImgUpgSt_installed_def nvImgUpgSt_getAll_def)

section \<open>Properties of the post-reboot constructor\<close>

lemma setAll_writable: "kv_writable (snd (nvImgUpgSt_setAll x kv)) = kv_writable kv"
  by (simp add: nvImgUpgSt_setAll_def)

lemma setAll_not_writable: "\<not> kv_writable kv \<Longrightarrow> nvImgUpgSt_setAll x kv = (False, kv)"
  by (simp add: nvImgUpgSt_setAll_def)

lemma setInstallRebooted_not_writable:
  "\<not> kv_writable kv \<Longrightarrow> snd (nvImgUpgSt_setInstallRebooted b kv) = kv"
  by (simp add: nvImgUpgSt_setInstallRebooted_def setAll_not_writable split: option.splits)

lemma reset_not_writable: "\<not> kv_writable kv \<Longrightarrow> snd (nvImgUpgSt_reset b kv) = kv"
  by (simp add: nvImgUpgSt_reset_def setAll_not_writable split: option.splits)

lemma settle_not_writable:
  "\<not> kv_writable kv \<Longrightarrow> nvImgUpgSt_settleInstalledCriteria kv = Inr (ok, kv') \<Longrightarrow> kv' = kv"
  by (auto simp: nvImgUpgSt_settleInstalledCriteria_def setAll_not_writable
           split: option.splits if_splits sum.splits)

lemma settle_writable:
  "nvImgUpgSt_settleInstalledCriteria kv = Inr (ok, kv') \<Longrightarrow> kv_writable kv' = kv_writable kv"
  by (auto simp: nvImgUpgSt_settleInstalledCriteria_def nvImgUpgSt_setAll_def
           split: option.splits if_splits sum.splits)

text \<open>After a reset in a writable store the record is readable and its install-rebooted flag is invalid.\<close>

lemma reset_False_cleared:
  assumes "kv_writable kv"
  shows "\<exists>st'. nvImgUpgSt_getAll (snd (nvImgUpgSt_reset False kv)) = Some st'
               \<and> \<not> installRebooted_valid st'"
proof (cases "nvImgUpgSt_getAll kv")
  case None
  then show ?thesis
    using assms
    by (simp add: nvImgUpgSt_reset_def nvImgUpgSt_setAll_def nvImgUpgSt_getAll_def
          installRebooted_valid_def bool_at_def NVImgUpgSt_layout)
next
  case (Some st)
  then have "length st = 152"
    using getAll_length by (simp add: NVImgUpgSt_layout)
  then show ?thesis
    using assms Some
    by (simp add: nvImgUpgSt_reset_def nvImgUpgSt_setAll_def nvImgUpgSt_getAll_def [of "_\<lparr>kv_value := _\<rparr>"]
          memset_zero_def installRebooted_valid_def bool_at_def nth_append NVImgUpgSt_layout)
qed

lemma cleared_queries:
  assumes "nvImgUpgSt_getAll kv = Some st" and "\<not> installRebooted_valid st"
  shows "nvImgUpgSt_installRebooted kv = None" and "nvImgUpgSt_installed kv bl = None"
  using assms by (simp_all add: nvImgUpgSt_installRebooted_def nvImgUpgSt_installed_def)

lemma PostReboot_stable:
  assumes "nvImgUpgSt_installRebooted kv \<noteq> Some False" and "nvImgUpgSt_installed kv bl = None"
  shows "Update_NVImgUpgSt_PostReboot (kv, bl) = Inr (kv, bl, False)"
  using assms
  by (auto simp: Update_NVImgUpgSt_PostReboot_def Let_def split: option.splits bool.splits)

text \<open>The store after the first step: a second attempt at the step changes nothing.\<close>

lemma installRebooted_step_idem:
  assumes "kv1 = (case nvImgUpgSt_installRebooted kv of
                    Some False \<Rightarrow> snd (nvImgUpgSt_setInstallRebooted True kv) | _ \<Rightarrow> kv)"
  shows "(case nvImgUpgSt_installRebooted kv1 of
            Some False \<Rightarrow> snd (nvImgUpgSt_setInstallRebooted True kv1) | _ \<Rightarrow> kv1) = kv1"
proof (cases "kv_writable kv")
  case False
  then have "kv1 = kv"
    using assms by (simp add: setInstallRebooted_not_writable split: option.splits bool.splits)
  then show ?thesis
    using False by (simp add: setInstallRebooted_not_writable split: option.splits bool.splits)
next
  case True
  show ?thesis
  proof (cases "nvImgUpgSt_installRebooted kv = Some False")
    case f: False
    then have "kv1 = kv"
      using assms by (auto split: option.splits bool.splits)
    then show ?thesis
      using f by (auto split: option.splits bool.splits)
  next
    case t: True
    then obtain st where g: "nvImgUpgSt_getAll kv = Some st"
      by (auto simp: nvImgUpgSt_installRebooted_def split: option.splits)
    then have l: "length st = 152"
      using getAll_length by (simp add: NVImgUpgSt_layout)
    have "kv1 = kv\<lparr>kv_value := Some (st[13 := 1, 12 := 1])\<rparr>"
      using assms t g True
      by (simp add: nvImgUpgSt_setInstallRebooted_def nvImgUpgSt_setAll_def bool_byte_def
            NVImgUpgSt_layout)
    then have "nvImgUpgSt_installRebooted kv1 = Some True"
      using l
      by (simp add: nvImgUpgSt_installRebooted_def nvImgUpgSt_getAll_def installRebooted_valid_def
            installRebooted_def bool_at_def NVImgUpgSt_layout)
    then show ?thesis by simp
  qed
qed

lemma boot_set_confirmed_step_idem:
  assumes "bl1 = (case nvImgUpgSt_installed kv bl of
                    Some False \<Rightarrow> boot_set_confirmed bl | _ \<Rightarrow> bl)"
      and "nvImgUpgSt_installed kv bl1 = Some False"
  shows "boot_set_confirmed bl1 = bl1"
proof (cases "nvImgUpgSt_installed kv bl = Some False")
  case False
  then have "bl1 = bl"
    using assms(1) by (auto split: option.splits bool.splits)
  then show ?thesis using assms(2) False by simp
next
  case True
  then have b: "bl1 = boot_set_confirmed bl"
    using assms(1) by simp
  show ?thesis
  proof (cases "confirm_effective bl")
    case False
    then show ?thesis using b by (simp add: boot_set_confirmed_def)
  next
    case e: True
    then have "nvImgUpgSt_installed kv bl1 = Some True"
      using True b
      by (auto simp: nvImgUpgSt_installed_def boot_set_confirmed_def Let_def
               split: option.splits if_splits)
    then show ?thesis using assms(2) by simp
  qed
qed

lemma settle_fault:
  assumes "nvImgUpgSt_settleInstalledCriteria kv = Inl f"
  shows "\<exists>st. nvImgUpgSt_getAll kv = Some st \<and> 0 \<notin> set (drop off_stageInstalledCriteria st)"
  using assms
  by (auto simp: nvImgUpgSt_settleInstalledCriteria_def c_strlen_def
           split: option.splits if_splits sum.splits)

lemma setInstallRebooted_criteria:
  assumes "nvImgUpgSt_getAll (snd (nvImgUpgSt_setInstallRebooted b kv)) = Some st1"
  shows "\<exists>st. nvImgUpgSt_getAll kv = Some st
           \<and> drop off_stageInstalledCriteria st1 = drop off_stageInstalledCriteria st"
proof (cases "nvImgUpgSt_getAll kv")
  case None
  then show ?thesis
    using assms by (simp add: nvImgUpgSt_setInstallRebooted_def)
next
  case (Some st)
  then have l: "length st = 152"
    using getAll_length by (simp add: NVImgUpgSt_layout)
  show ?thesis
  proof (cases "kv_writable kv")
    case False
    then show ?thesis
      using assms Some by (simp add: setInstallRebooted_not_writable)
  next
    case True
    then have "st1 = st[13 := bool_byte b, 12 := 1]"
      using assms Some l
      by (simp add: nvImgUpgSt_setInstallRebooted_def nvImgUpgSt_setAll_def
            nvImgUpgSt_getAll_def [of "_\<lparr>kv_value := _\<rparr>"] NVImgUpgSt_layout)
    then show ?thesis
      using Some by (simp add: NVImgUpgSt_layout)
  qed
qed

lemma PostReboot_returns:
  assumes "\<And>st. nvImgUpgSt_getAll kv = Some st \<Longrightarrow> 0 \<in> set (drop off_stageInstalledCriteria st)"
  shows "\<exists>s'. Update_NVImgUpgSt_PostReboot (kv, bl) = Inr s'"
proof -
  define kv1 where "kv1 = (case nvImgUpgSt_installRebooted kv of
                    Some False \<Rightarrow> snd (nvImgUpgSt_setInstallRebooted True kv) | _ \<Rightarrow> kv)"
  have "\<exists>st. nvImgUpgSt_getAll kv = Some st
           \<and> drop off_stageInstalledCriteria st1 = drop off_stageInstalledCriteria st"
    if "nvImgUpgSt_getAll kv1 = Some st1" for st1
    using that setInstallRebooted_criteria [of True kv st1]
    by (auto simp: kv1_def split: option.splits bool.splits)
  then have nf: "nvImgUpgSt_settleInstalledCriteria kv1 \<noteq> Inl f" for f
    using assms settle_fault [of kv1 f] by metis
  define bl1 where "bl1 = (case nvImgUpgSt_installed kv1 bl of
                    Some False \<Rightarrow> boot_set_confirmed bl | _ \<Rightarrow> bl)"
  have R: "Update_NVImgUpgSt_PostReboot (kv, bl) =
            (case nvImgUpgSt_installed kv1 bl1 of
               None \<Rightarrow> Inr (kv1, bl1, False)
             | Some True \<Rightarrow>
                 (case nvImgUpgSt_settleInstalledCriteria kv1 of
                    Inl f \<Rightarrow> Inl f
                  | Inr (_, kv2) \<Rightarrow> Inr (snd (nvImgUpgSt_reset False kv2), bl1, False))
             | Some False \<Rightarrow> Inr (snd (nvImgUpgSt_reset False kv1), bl1, True))"
    unfolding Update_NVImgUpgSt_PostReboot_def Let_def kv1_def bl1_def fst_conv snd_conv ..
  show ?thesis
    unfolding R using nf
    by (cases "nvImgUpgSt_settleInstalledCriteria kv1")
       (auto split: option.splits bool.splits)
qed

text \<open>
  Claim C6 (recovery idempotence). For every store and bootloader state from which
  \<^verbatim>\<open>Update_NVImgUpgSt_PostReboot\<close> returns, leaving the store \<open>kv'\<close> and the
  bootloader state \<open>bl'\<close>, a second run started from \<open>kv'\<close> and \<open>bl'\<close> returns
  and leaves exactly \<open>kv'\<close> and \<open>bl'\<close> again. (The routine returns whenever the
  stored record holds a NUL from \<^verbatim>\<open>stageInstalledCriteria\<close> on:
  lemma \<open>PostReboot_returns\<close>.)
\<close>

theorem recovery_idempotent:
  assumes "Update_NVImgUpgSt_PostReboot (kv, bl) = Inr (kv', bl', r)"
  shows "\<exists>r'. Update_NVImgUpgSt_PostReboot (kv', bl') = Inr (kv', bl', r')"
proof -
  define kv1 where "kv1 = (case nvImgUpgSt_installRebooted kv of
                    Some False \<Rightarrow> snd (nvImgUpgSt_setInstallRebooted True kv) | _ \<Rightarrow> kv)"
  define bl1 where "bl1 = (case nvImgUpgSt_installed kv1 bl of
                    Some False \<Rightarrow> boot_set_confirmed bl | _ \<Rightarrow> bl)"
  have w1: "kv_writable kv1 = kv_writable kv"
    by (auto simp: kv1_def nvImgUpgSt_setInstallRebooted_def setAll_writable
             split: option.splits bool.splits)
  have A: "(case nvImgUpgSt_installRebooted kv1 of
            Some False \<Rightarrow> snd (nvImgUpgSt_setInstallRebooted True kv1) | _ \<Rightarrow> kv1) = kv1"
    using kv1_def by (rule installRebooted_step_idem)
  have B: "nvImgUpgSt_installed kv1 bl1 = Some False \<Longrightarrow> boot_set_confirmed bl1 = bl1"
    using bl1_def by (rule boot_set_confirmed_step_idem)
  have B': "(case nvImgUpgSt_installed kv1 bl1 of
                    Some False \<Rightarrow> boot_set_confirmed bl1 | _ \<Rightarrow> bl1) = bl1"
    using B by (auto split: option.splits bool.splits)
  have R: "Update_NVImgUpgSt_PostReboot (kv, bl) =
            (case nvImgUpgSt_installed kv1 bl1 of
               None \<Rightarrow> Inr (kv1, bl1, False)
             | Some True \<Rightarrow>
                 (case nvImgUpgSt_settleInstalledCriteria kv1 of
                    Inl f \<Rightarrow> Inl f
                  | Inr (_, kv2) \<Rightarrow> Inr (snd (nvImgUpgSt_reset False kv2), bl1, False))
             | Some False \<Rightarrow> Inr (snd (nvImgUpgSt_reset False kv1), bl1, True))"
    unfolding Update_NVImgUpgSt_PostReboot_def Let_def kv1_def bl1_def fst_conv snd_conv ..
  have R1: "Update_NVImgUpgSt_PostReboot (kv1, bl1) =
            (case nvImgUpgSt_installed kv1 bl1 of
               None \<Rightarrow> Inr (kv1, bl1, False)
             | Some True \<Rightarrow>
                 (case nvImgUpgSt_settleInstalledCriteria kv1 of
                    Inl f \<Rightarrow> Inl f
                  | Inr (_, kv2) \<Rightarrow> Inr (snd (nvImgUpgSt_reset False kv2), bl1, False))
             | Some False \<Rightarrow> Inr (snd (nvImgUpgSt_reset False kv1), bl1, True))"
    unfolding Update_NVImgUpgSt_PostReboot_def Let_def fst_conv snd_conv A B' ..
  show ?thesis
  proof (cases "kv_writable kv")
    case False
    then have nw: "\<not> kv_writable kv1" using w1 by simp
    have s: "kv2 = kv1" if "nvImgUpgSt_settleInstalledCriteria kv1 = Inr (ok, kv2)" for ok kv2
      using nw that by (rule settle_not_writable)
    have "kv' = kv1 \<and> bl' = bl1"
      using assms nw unfolding R
      by (auto simp: reset_not_writable split: option.splits bool.splits sum.splits
               dest!: s)
    then show ?thesis
      using assms R R1 by auto
  next
    case True
    then have w: "kv_writable kv1" using w1 by simp
    show ?thesis
    proof (cases "nvImgUpgSt_installed kv1 bl1")
      case None
      then have "kv' = kv1 \<and> bl' = bl1"
        using assms unfolding R by simp
      then show ?thesis
        using R1 None by auto
    next
      case (Some c)
      have "\<exists>kv2. kv_writable kv2 \<and> kv' = snd (nvImgUpgSt_reset False kv2) \<and> bl' = bl1"
        using assms Some w unfolding R
        by (auto split: bool.splits sum.splits dest: settle_writable)
      then obtain kv2 where k: "kv_writable kv2" "kv' = snd (nvImgUpgSt_reset False kv2)" "bl' = bl1"
        by blast
      from reset_False_cleared [OF k(1)] obtain st' where
        "nvImgUpgSt_getAll kv' = Some st'" "\<not> installRebooted_valid st'"
        using k(2) by auto
      then have "nvImgUpgSt_installRebooted kv' = None" "nvImgUpgSt_installed kv' bl' = None"
        by (simp_all add: cleared_queries)
      then show ?thesis
        by (auto simp: PostReboot_stable)
    qed
  qed
qed

theorem recovery_idempotent_witness:
  "Update_NVImgUpgSt_PostReboot
     (\<lparr>kv_value = Some ([1] @ replicate 11 0 @ [1, 0, 1, 118, 50] @ replicate 135 0),
       kv_writable = True\<rparr>,
      \<lparr>primary_header = replicate 32 0, flash_area_open_ok = True, image_ok = Some 3,
        confirm_effective = True, set_pending_ok = True, secondary_pending = False\<rparr>)
    = Inr (\<lparr>kv_value = Some (replicate 84 0 @ [1, 118, 50] @ replicate 65 0), kv_writable = True\<rparr>,
           \<lparr>primary_header = replicate 32 0, flash_area_open_ok = True, image_ok = Some 1,
             confirm_effective = True, set_pending_ok = True, secondary_pending = False\<rparr>,
           False)
   \<and> (\<exists>r'. Update_NVImgUpgSt_PostReboot
         (\<lparr>kv_value = Some (replicate 84 0 @ [1, 118, 50] @ replicate 65 0), kv_writable = True\<rparr>,
          \<lparr>primary_header = replicate 32 0, flash_area_open_ok = True, image_ok = Some 1,
            confirm_effective = True, set_pending_ok = True, secondary_pending = False\<rparr>)
       = Inr (\<lparr>kv_value = Some (replicate 84 0 @ [1, 118, 50] @ replicate 65 0), kv_writable = True\<rparr>,
              \<lparr>primary_header = replicate 32 0, flash_area_open_ok = True, image_ok = Some 1,
                confirm_effective = True, set_pending_ok = True, secondary_pending = False\<rparr>,
              r'))"
proof -
  have first: "Update_NVImgUpgSt_PostReboot
     (\<lparr>kv_value = Some ([1] @ replicate 11 0 @ [1, 0, 1, 118, 50] @ replicate 135 0),
       kv_writable = True\<rparr>,
      \<lparr>primary_header = replicate 32 0, flash_area_open_ok = True, image_ok = Some 3,
        confirm_effective = True, set_pending_ok = True, secondary_pending = False\<rparr>)
    = Inr (\<lparr>kv_value = Some (replicate 84 0 @ [1, 118, 50] @ replicate 65 0), kv_writable = True\<rparr>,
           \<lparr>primary_header = replicate 32 0, flash_area_open_ok = True, image_ok = Some 1,
             confirm_effective = True, set_pending_ok = True, secondary_pending = False\<rparr>,
           False)"
    by code_simp
  show ?thesis
    using first recovery_idempotent [OF first] by simp
qed

section \<open>Properties of the aligned block writer and the header gate\<close>

subsection \<open>Arithmetic of aligned offsets\<close>

lemma aligndown_le: "(off div P) * P \<le> (off::nat)"
  by simp

lemma multiple_above:
  fixes P :: nat
  assumes "P dvd a" and "off < a"
  shows "(off div P) * P + P \<le> a"
proof -
  from assms(1) obtain m where a: "a = P * m" by (auto simp: dvd_def)
  have P0: "0 < P" using assms a by (cases P) auto
  have "off div P < m"
    using assms(2) a P0 by (simp add: div_less_iff_less_mult mult.commute)
  then have "off div P + 1 \<le> m" by simp
  then have "P * (off div P + 1) \<le> P * m" by (rule mult_le_mono2)
  then show ?thesis using a by (simp add: algebra_simps)
qed

lemma aligndown_coarser:
  fixes P R :: nat
  assumes "P dvd R"
  shows "(off div R) * R \<le> (off div P) * P"
proof (cases "R = 0")
  case True
  then show ?thesis by simp
next
  case False
  from assms obtain k where R: "R = P * k" by (auto simp: dvd_def)
  have "(off div R) * R = ((off div P) div k) * k * P"
    using R by (simp add: div_mult2_eq mult.commute mult.left_commute)
  also have "\<dots> \<le> (off div P) * P"
    by (rule mult_le_mono1) simp
  finally show ?thesis .
qed

lemma aligndown_dvd: "(P::nat) dvd (off div P) * P"
  by simp

lemma alignup_aligned:
  fixes P :: nat
  assumes "0 < P" and "off mod P = 0"
  shows "((off + P - 1) div P) * P = off"
proof -
  from assms(2) have "P dvd off" by (simp add: mod_eq_0_iff_dvd)
  then obtain m where o: "off = m * P" by (auto simp: dvd_def mult.commute)
  have e: "off + P - 1 = (P - 1) + m * P" using assms(1) o by simp
  have "((P - 1) + m * P) div P = m + (P - 1) div P"
    using assms(1) div_mult_self1 [of P "P - 1" m] by simp
  then have "(off + P - 1) div P = m" using assms(1) e by simp
  then show ?thesis using o by simp
qed

lemma alignup_unaligned:
  fixes P :: nat
  assumes "0 < P" and "off mod P \<noteq> 0"
  shows "((off + P - 1) div P) * P = (off div P) * P + P"
proof -
  define q where "q = off div P"
  define r where "r = off mod P"
  have o: "off = q * P + r" by (simp add: q_def r_def)
  have r: "0 < r" "r < P" using assms by (simp_all add: r_def)
  have e: "off + P - 1 = (r - 1) + (q + 1) * P" using o r by simp
  have "((r - 1) + (q + 1) * P) div P = (q + 1) + (r - 1) div P"
    using assms(1) div_mult_self1 [of P "r - 1" "q + 1"] by simp
  then have "(off + P - 1) div P = q + 1" using r e by simp
  then show ?thesis by (simp add: q_def)
qed

subsection \<open>Copies into a byte list\<close>

lemma memcpy_at_length:
  "off + length src \<le> length obj \<Longrightarrow> length (memcpy_at obj off src) = length obj"
  by (simp add: memcpy_at_def)

lemma memcpy_at_Nil: "off \<le> length obj \<Longrightarrow> memcpy_at obj off [] = obj"
  by (simp add: memcpy_at_def)

lemma memcpy_at_append:
  assumes "off + length xs + length ys \<le> length obj"
  shows "memcpy_at (memcpy_at obj off xs) (off + length xs) ys = memcpy_at obj off (xs @ ys)"
  using assms by (simp add: memcpy_at_def ac_simps)


text \<open>Splicing into the program unit that was read and writing the unit back.\<close>

lemma splice_unit_parts:
  assumes "length U2 = length src"
  shows "memcpy_at (A @ U1 @ U2 @ U3 @ B) (length A)
           (take (length (U1 @ U2 @ U3))
              (memcpy_at (take (length (U1 @ U2 @ U3)) (drop (length A) (A @ U1 @ U2 @ U3 @ B)))
                 (length U1) src))
         = memcpy_at (A @ U1 @ U2 @ U3 @ B) (length A + length U1) src"
  using assms by (simp add: memcpy_at_def)

lemma splice_unit:
  fixes mem :: "byte list"
  assumes "pa \<le> off" and "off + length src \<le> pa + P" and "pa + P \<le> length mem"
  shows "memcpy_at mem pa (take P (memcpy_at (take P (drop pa mem)) (off - pa) src))
           = memcpy_at mem off src"
proof -
  define k where "k = off - pa"
  define n where "n = length src"
  define A where "A = take pa mem"
  define U1 where "U1 = take k (drop pa mem)"
  define U2 where "U2 = take n (drop (pa + k) mem)"
  define U3 where "U3 = take (P - (k + n)) (drop (pa + k + n) mem)"
  define B where "B = drop (pa + P) mem"
  have off: "off = pa + k" using assms(1) by (simp add: k_def)
  have kn: "k + n \<le> P" using assms(2) off by (simp add: n_def)
  have lA: "length A = pa" using assms(3) by (simp add: A_def)
  have l1: "length U1 = k" using assms(3) kn by (simp add: U1_def)
  have l2: "length U2 = n" using assms(3) kn by (simp add: U2_def)
  have l3: "length U3 = P - (k + n)" using assms(3) kn by (simp add: U3_def)
  have "U3 @ B = drop (pa + k + n) mem"
  proof -
    have "B = drop (P - (k + n)) (drop (pa + k + n) mem)"
      using kn by (simp add: B_def ac_simps)
    then show ?thesis unfolding U3_def by (simp only: append_take_drop_id)
  qed
  moreover have "drop (pa + k + n) mem = drop n (drop (pa + k) mem)"
    by (simp add: ac_simps)
  ultimately have "U2 @ U3 @ B = drop (pa + k) mem"
    unfolding U2_def by (simp only: append_take_drop_id)
  moreover have "drop (pa + k) mem = drop k (drop pa mem)"
    by (simp add: ac_simps)
  ultimately have "U1 @ U2 @ U3 @ B = drop pa mem"
    unfolding U1_def by (simp only: append_take_drop_id)
  then have mem: "mem = A @ U1 @ U2 @ U3 @ B"
    by (simp add: A_def)
  have lU: "length (U1 @ U2 @ U3) = P" using l1 l2 l3 kn by simp
  show ?thesis
    using splice_unit_parts [of U2 src A U1 U3 B] l2 lU lA l1
    by (simp add: n_def off flip: mem)
qed

lemma bd_read_program_unit_ok:
  assumes g: "geometry_ok bd P R" and o: "off < length (bd_storage bd)"
  shows "bd_read_program_unit bd P R off
           = Inr (Some (take P (drop ((off div P) * P) (bd_storage bd))))"
    and "(off div P) * P + P \<le> length (bd_storage bd)"
proof -
  let ?mem = "bd_storage bd"
  let ?ra = "(off div R) * R"
  let ?pa = "(off div P) * P"
  from g have P: "0 < P" and R: "0 < R" and PR: "P dvd R" and rs: "bd_read_size bd dvd R"
    and Rn: "R dvd length ?mem"
    by (simp_all add: geometry_ok_def)
  have PleR: "P \<le> R" using PR R by (simp add: dvd_imp_le)
  have ra_pa: "?ra \<le> ?pa" using PR by (rule aligndown_coarser)
  have raR: "?ra + R \<le> length ?mem" using Rn o by (rule multiple_above)
  have off_lt: "off < ?ra + R"
  proof -
    have "off = ?ra + off mod R" by simp
    moreover have "off mod R < R" using R by simp
    ultimately show ?thesis by linarith
  qed
  have "P dvd ?ra + R" using PR by (simp add: dvd_add dvd_mult)
  then have paP: "?pa + P \<le> ?ra + R" using off_lt by (rule multiple_above)
  show "?pa + P \<le> length ?mem" using paP raR by simp
  have valid: "is_valid_read bd ?ra R"
    using rs raR by (auto simp: is_valid_read_def mod_eq_0_iff_dvd dvd_mult)
  have rd: "bd_read bd ?ra R = Some (take R (drop ?ra ?mem))"
    using valid by (simp add: bd_read_def)
  have "take P (drop (?pa - ?ra) (take R (drop ?ra ?mem))) = take P (drop ?pa ?mem)"
  proof -
    have "drop (?pa - ?ra) (take R (drop ?ra ?mem))
            = take (R - (?pa - ?ra)) (drop (?pa - ?ra) (drop ?ra ?mem))"
      by (simp add: drop_take)
    also have "drop (?pa - ?ra) (drop ?ra ?mem) = drop ?pa ?mem"
      using ra_pa by simp
    finally show ?thesis
      using paP ra_pa by (simp add: min_def)
  qed
  then show "bd_read_program_unit bd P R off = Inr (Some (take P (drop ?pa ?mem)))"
    using PleR ra_pa paP rd
    by (simp add: bd_read_program_unit_def Let_def)
qed

lemma bd_program_ok:
  assumes "bd_program_size bd = P" and "0 < P" and "addr mod P = 0" and "sz mod P = 0"
      and "addr + sz \<le> length (bd_storage bd)"
  shows "bd_program bd buf addr sz
           = Some (bd\<lparr>bd_storage := memcpy_at (bd_storage bd) addr (take sz buf)\<rparr>)"
  using assms by (simp add: bd_program_def is_valid_program_def)

lemma geometry_ok_storage:
  "geometry_ok bd P R \<Longrightarrow> length mem' = length (bd_storage bd)
     \<Longrightarrow> geometry_ok (bd\<lparr>bd_storage := mem'\<rparr>) P R"
  by (simp add: geometry_ok_def)

text \<open>The first step.\<close>

lemma program_first_todo:
  assumes "fwu_todo = (if ((off + P - 1) div P) * P - off > length data then length data
                       else ((off + P - 1) div P) * P - off)"
  shows "program_first bd P R off data =
     (if \<not> P > fwu_todo then Inl AssertFailed
      else if fwu_todo = 0 then Inr (True, bd, off, data)
      else
        (case bd_read_program_unit bd P R off of
           Inl f \<Rightarrow> Inl f
         | Inr None \<Rightarrow> Inr (False, bd, off, data)
         | Inr (Some progunit) \<Rightarrow>
             (case bd_program bd (memcpy_at progunit (off - (off div P) * P) (take fwu_todo data))
                     ((off div P) * P) P of
                None \<Rightarrow> Inr (False, bd, off, data)
              | Some bd' \<Rightarrow> Inr (True, bd', off + fwu_todo, drop fwu_todo data))))"
  unfolding program_first_def Let_def assms ..

lemma program_first_ok:
  assumes g: "geometry_ok bd P R" and fit: "off + length data \<le> length (bd_storage bd)"
  shows "\<exists>todo. todo \<le> length data
           \<and> program_first bd P R off data
               = Inr (True, bd\<lparr>bd_storage := memcpy_at (bd_storage bd) off (take todo data)\<rparr>,
                      off + todo, drop todo data)
           \<and> (todo = length data \<and> todo < P \<or> (off + todo) mod P = 0)"
proof (cases "off mod P = 0 \<or> data = []")
  case True
  from g have P: "0 < P" by (simp add: geometry_ok_def)
  have "(if ((off + P - 1) div P) * P - off > length data then length data
         else ((off + P - 1) div P) * P - off) = 0"
  proof (cases "data = []")
    case True
    then show ?thesis by simp
  next
    case False
    then have "off mod P = 0" using \<open>off mod P = 0 \<or> data = []\<close> by simp
    then have "((off + P - 1) div P) * P = off" using P by (intro alignup_aligned)
    then show ?thesis by simp
  qed
  then have "program_first bd P R off data = Inr (True, bd, off, data)"
    using P program_first_todo [where fwu_todo = 0 and off = off and P = P and data = data and bd = bd and R = R] by simp
  moreover have "memcpy_at (bd_storage bd) off (take 0 data) = bd_storage bd"
    using fit by (simp add: memcpy_at_Nil)
  ultimately show ?thesis
    using True P by (intro exI [of _ 0]) auto
next
  case False
  let ?mem = "bd_storage bd"
  let ?pa = "(off div P) * P"
  from g have P: "0 < P" and bp: "bd_program_size bd = P" by (simp_all add: geometry_ok_def)
  from False have un: "off mod P \<noteq> 0" and ne: "data \<noteq> []" by simp_all
  have o: "off < length ?mem" using fit ne by (cases data) auto
  have up: "((off + P - 1) div P) * P = ?pa + P" using P un by (rule alignup_unaligned)
  define todo where "todo = (if ?pa + P - off > length data then length data else ?pa + P - off)"
  have pa_le: "?pa \<le> off" by simp
  have pa_lt: "?pa < off"
  proof -
    have "off = ?pa + off mod P" by simp
    then show ?thesis using un by linarith
  qed
  have off_lt: "off < ?pa + P"
  proof -
    have "off = ?pa + off mod P" by simp
    moreover have "off mod P < P" using P by simp
    ultimately show ?thesis by linarith
  qed
  have t0: "0 < todo" "todo < P" "todo \<le> length data" "off + todo \<le> ?pa + P"
    using pa_lt off_lt ne by (auto simp: todo_def)
  have rpu: "bd_read_program_unit bd P R off = Inr (Some (take P (drop ?pa ?mem)))"
    and paP: "?pa + P \<le> length ?mem"
    using bd_read_program_unit_ok [OF g o] by simp_all
  let ?unit = "memcpy_at (take P (drop ?pa ?mem)) (off - ?pa) (take todo data)"
  have lt: "length (take todo data) = todo" using t0 by simp
  have prog: "bd_program bd ?unit ?pa P
                = Some (bd\<lparr>bd_storage := memcpy_at ?mem ?pa (take P ?unit)\<rparr>)"
    using bp P paP bd_program_ok [where bd = bd and P = P and addr = "?pa" and sz = P and buf = "?unit"]
    by simp
  have sp: "memcpy_at ?mem ?pa (take P ?unit) = memcpy_at ?mem off (take todo data)"
    using pa_le t0 paP lt by (intro splice_unit) simp_all
  have "program_first bd P R off data
          = Inr (True, bd\<lparr>bd_storage := memcpy_at ?mem off (take todo data)\<rparr>,
                 off + todo, drop todo data)"
  proof -
    have eq: "todo = (if ((off + P - 1) div P) * P - off > length data then length data
                       else ((off + P - 1) div P) * P - off)"
      unfolding todo_def up ..
    show ?thesis
      unfolding program_first_todo [OF eq] using t0 rpu prog sp by simp
  qed
  moreover have "todo = length data \<and> todo < P \<or> (off + todo) mod P = 0"
  proof (cases "?pa + P - off > length data")
    case True
    then show ?thesis using t0 by (simp add: todo_def)
  next
    case False
    then have "off + todo = ?pa + P" using off_lt by (simp add: todo_def)
    then show ?thesis by simp
  qed
  ultimately show ?thesis using t0 by (intro exI [of _ todo]) simp
qed

text \<open>The aligned middle step.\<close>

lemma program_aligned_ok:
  assumes g: "geometry_ok bd P R" and fit: "off + length data \<le> length (bd_storage bd)"
      and al: "off mod P = 0 \<or> length data < P"
  shows "program_aligned bd P off data
           = (True, bd\<lparr>bd_storage := memcpy_at (bd_storage bd) off
                                         (take ((length data div P) * P) data)\<rparr>,
              off + (length data div P) * P, drop ((length data div P) * P) data)"
proof (cases "(length data div P) * P = 0")
  case True
  show ?thesis
    unfolding program_aligned_def Let_def True using fit by (simp add: memcpy_at_Nil)
next
  case False
  from g have P: "0 < P" and bp: "bd_program_size bd = P" by (simp_all add: geometry_ok_def)
  let ?todo = "(length data div P) * P"
  have "P \<le> length data"
    using False P by (cases "length data < P") auto
  then have a: "off mod P = 0" using al by simp
  have le: "?todo \<le> length data" by simp
  have fit': "off + ?todo \<le> length (bd_storage bd)" using fit le by linarith
  have "bd_program bd data off ?todo
          = Some (bd\<lparr>bd_storage := memcpy_at (bd_storage bd) off (take ?todo data)\<rparr>)"
    using bp P a fit'
      bd_program_ok [where bd = bd and P = P and addr = off and sz = "?todo" and buf = data]
    by simp
  then show ?thesis
    using False by (simp add: program_aligned_def Let_def)
qed

text \<open>The last step: the tail shorter than a program unit is spliced and programmed.\<close>

lemma program_last_ok:
  assumes g: "geometry_ok bd P R" and fit: "off + length data \<le> length (bd_storage bd)"
      and al: "off mod P = 0 \<or> data = []" and short: "length data < P"
  shows "program_last bd P R off data
           = Inr (True, bd\<lparr>bd_storage := memcpy_at (bd_storage bd) off data\<rparr>,
                  off + length data, [])"
proof (cases "data = []")
  case True
  moreover have "memcpy_at (bd_storage bd) off [] = bd_storage bd"
    using fit by (simp add: memcpy_at_Nil)
  ultimately show ?thesis
    by (simp add: program_last_def Let_def)
next
  case False
  let ?mem = "bd_storage bd"
  from g have P: "0 < P" and bp: "bd_program_size bd = P" by (simp_all add: geometry_ok_def)
  from False al have a: "off mod P = 0" by simp
  then have pa: "(off div P) * P = off"
    by (simp add: mod_eq_0_iff_dvd)
  have o: "off < length ?mem" using fit False by (cases data) auto
  have rpu: "bd_read_program_unit bd P R off = Inr (Some (take P (drop off ?mem)))"
    and offP: "off + P \<le> length ?mem"
    using bd_read_program_unit_ok [OF g o] pa by simp_all
  let ?unit = "memcpy_at (take P (drop off ?mem)) 0 data"
  have prog: "bd_program bd ?unit off P
                = Some (bd\<lparr>bd_storage := memcpy_at ?mem off (take P ?unit)\<rparr>)"
    using bp P a offP
      bd_program_ok [where bd = bd and P = P and addr = off and sz = P and buf = "?unit"]
    by simp
  have sp: "memcpy_at ?mem off (take P ?unit) = memcpy_at ?mem off data"
    using short offP splice_unit [of off off data P ?mem] by simp
  show ?thesis
    using False short rpu prog sp
    by (simp add: program_last_def Let_def)
qed

text \<open>One chunk: the three steps together overwrite exactly the chunk's range.\<close>

lemma program_chunk_ok:
  assumes g: "geometry_ok bd P R" and fit: "off + length data \<le> length (bd_storage bd)"
  shows "program_chunk bd P R off data
           = Inr (True, bd\<lparr>bd_storage := memcpy_at (bd_storage bd) off data\<rparr>)"
proof -
  let ?mem = "bd_storage bd"
  from g have P: "0 < P" by (simp add: geometry_ok_def)
  from program_first_ok [OF g fit] obtain t1 where
    X: "t1 \<le> length data
        \<and> program_first bd P R off data
            = Inr (True, bd\<lparr>bd_storage := memcpy_at ?mem off (take t1 data)\<rparr>,
                   off + t1, drop t1 data)
        \<and> (t1 = length data \<and> t1 < P \<or> (off + t1) mod P = 0)" ..
  from X have t1: "t1 \<le> length data" by (rule conjunct1)
  from X have s1: "program_first bd P R off data
               = Inr (True, bd\<lparr>bd_storage := memcpy_at ?mem off (take t1 data)\<rparr>,
                      off + t1, drop t1 data)"
    by (elim conjE)
  from X have c1: "t1 = length data \<and> t1 < P \<or> (off + t1) mod P = 0"
    by (elim conjE)
  let ?m1 = "memcpy_at ?mem off (take t1 data)"
  let ?bd1 = "bd\<lparr>bd_storage := ?m1\<rparr>"
  let ?d1 = "drop t1 data"
  have l1: "length ?m1 = length ?mem"
    using t1 fit by (simp add: memcpy_at_length)
  have g1: "geometry_ok ?bd1 P R"
    using g l1 by (simp add: geometry_ok_def)
  have fit1: "off + t1 + length ?d1 \<le> length (bd_storage ?bd1)"
    using t1 fit l1 by simp
  have al1: "(off + t1) mod P = 0 \<or> length ?d1 < P"
    using c1 P by auto
  define t2 where "t2 = (length ?d1 div P) * P"
  have t2: "t2 \<le> length ?d1" by (simp add: t2_def)
  have Pt2: "P dvd t2" by (simp add: t2_def)
  have r2: "length ?d1 - t2 < P"
  proof -
    have "length ?d1 - t2 = length ?d1 mod P"
      unfolding t2_def by (simp add: minus_div_mult_eq_mod)
    then show ?thesis using P by simp
  qed
  have s2: "program_aligned ?bd1 P (off + t1) ?d1
              = (True, ?bd1\<lparr>bd_storage := memcpy_at ?m1 (off + t1) (take t2 ?d1)\<rparr>,
                 off + t1 + t2, drop t2 ?d1)"
    using program_aligned_ok [OF g1 fit1 al1] unfolding t2_def by simp
  let ?m2 = "memcpy_at ?m1 (off + t1) (take t2 ?d1)"
  let ?bd2 = "bd\<lparr>bd_storage := ?m2\<rparr>"
  let ?d2 = "drop t2 ?d1"
  have lt2: "length (take t2 ?d1) = t2" using t2 by simp
  have ld1: "length ?d1 = length data - t1" by simp
  have "off + t1 + length (take t2 ?d1) \<le> length ?m1"
    unfolding lt2 l1 using t1 t2 fit ld1 by linarith
  then have "length ?m2 = length ?m1" by (rule memcpy_at_length)
  then have l2: "length ?m2 = length ?mem" using l1 by simp
  have g2: "geometry_ok ?bd2 P R"
    using g l2 by (simp add: geometry_ok_def)
  have ld2: "length ?d2 = length data - t1 - t2" by simp
  have fit2: "off + t1 + t2 + length ?d2 \<le> length (bd_storage ?bd2)"
    using t1 t2 fit l2 ld1 ld2 by simp
  have short2: "length ?d2 < P"
    using r2 by simp
  have al2: "(off + t1 + t2) mod P = 0 \<or> ?d2 = []"
  proof (cases "(off + t1) mod P = 0")
    case True
    then have "P dvd off + t1" by (simp add: mod_eq_0_iff_dvd)
    then have "P dvd off + t1 + t2" using Pt2 by (rule dvd_add)
    then show ?thesis by (simp add: mod_eq_0_iff_dvd)
  next
    case False
    then have "t1 = length data" using c1 by simp
    then show ?thesis by simp
  qed
  have s3: "program_last ?bd2 P R (off + t1 + t2) ?d2
              = Inr (True, ?bd2\<lparr>bd_storage := memcpy_at ?m2 (off + t1 + t2) ?d2\<rparr>,
                     off + t1 + t2 + length ?d2, [])"
    using program_last_ok [OF g2 fit2 al2 short2] by simp
  have lt1: "length (take t1 data) = t1" using t1 by simp
  have "off + length (take t1 data) + length (take t2 ?d1) \<le> length ?mem"
    unfolding lt1 lt2 using t1 t2 fit ld1 by linarith
  then have "memcpy_at (memcpy_at ?mem off (take t1 data)) (off + length (take t1 data)) (take t2 ?d1)
          = memcpy_at ?mem off (take t1 data @ take t2 ?d1)"
    by (rule memcpy_at_append)
  then have m12: "?m2 = memcpy_at ?mem off (take t1 data @ take t2 ?d1)"
    unfolding lt1 .
  have l12: "length (take t1 data @ take t2 ?d1) = t1 + t2"
    using lt1 lt2 by simp
  have "off + length (take t1 data @ take t2 ?d1) + length ?d2 \<le> length ?mem"
    unfolding l12 ld2 using t1 t2 fit ld1 by linarith
  then have "memcpy_at (memcpy_at ?mem off (take t1 data @ take t2 ?d1))
               (off + length (take t1 data @ take t2 ?d1)) ?d2
          = memcpy_at ?mem off ((take t1 data @ take t2 ?d1) @ ?d2)"
    by (rule memcpy_at_append)
  then have m123: "memcpy_at ?m2 (off + t1 + t2) ?d2
                = memcpy_at ?mem off ((take t1 data @ take t2 ?d1) @ ?d2)"
    unfolding l12 m12 by (simp add: add.assoc)
  have "take t2 ?d1 @ ?d2 = ?d1" by (rule append_take_drop_id)
  then have "(take t1 data @ take t2 ?d1) @ ?d2 = take t1 data @ ?d1"
    by (simp only: append_assoc)
  then have "(take t1 data @ take t2 ?d1) @ ?d2 = data"
    by (simp only: append_take_drop_id)
  then have fin: "memcpy_at ?m2 (off + t1 + t2) ?d2 = memcpy_at ?mem off data"
    using m123 by simp
  show ?thesis
    unfolding program_chunk_def s1 using s2 s3 fin by simp
qed

lemma header_splice:
  fixes hdr :: "byte list"
  assumes l: "length hdr = 32" and inv: "take (length sofar) hdr = take 32 sofar"
      and lt: "length sofar < 32"
      and todo: "todo = (if 32 - length sofar > length c then length c else 32 - length sofar)"
  shows "length (memcpy_at hdr (length sofar) (take todo c)) = 32"
    and "take (length (sofar @ c)) (memcpy_at hdr (length sofar) (take todo c)) = take 32 (sofar @ c)"
    and "length sofar + todo = 32 \<longleftrightarrow> 32 \<le> length (sofar @ c)"
proof -
  have d: "take (length sofar) hdr = sofar" using inv lt by simp
  have tc: "todo \<le> length c" using todo by (cases "32 - length sofar > length c") simp_all
  have tl: "length (take todo c) = todo" using tc by simp
  have le: "length sofar + todo \<le> 32"
    using todo lt by (cases "32 - length sofar > length c") simp_all
  show 1: "length (memcpy_at hdr (length sofar) (take todo c)) = 32"
    using l le tl by (simp add: memcpy_at_length)
  have h: "memcpy_at hdr (length sofar) (take todo c)
             = sofar @ take todo c @ drop (length sofar + todo) hdr"
    using tc by (simp add: memcpy_at_def d min_absorb2)
  show 3: "length sofar + todo = 32 \<longleftrightarrow> 32 \<le> length (sofar @ c)"
    using todo lt by auto
  show "take (length (sofar @ c)) (memcpy_at hdr (length sofar) (take todo c)) = take 32 (sofar @ c)"
  proof (cases "32 \<le> length (sofar @ c)")
    case True
    then have t: "todo = 32 - length sofar" using todo lt by auto
    have "drop (length sofar + todo) hdr = []" using t l lt by simp
    then have "memcpy_at hdr (length sofar) (take todo c) = sofar @ take (32 - length sofar) c"
      using h t by simp
    moreover have "take 32 (sofar @ c) = sofar @ take (32 - length sofar) c"
      using lt by simp
    moreover have "length (sofar @ take (32 - length sofar) c) = 32"
      using True lt by simp
    ultimately show ?thesis using True by simp
  next
    case False
    then have t: "todo = length c" using todo by auto
    then have "memcpy_at hdr (length sofar) (take todo c)
                = (sofar @ c) @ drop (length sofar + length c) hdr"
      using h by simp
    then show ?thesis using False by simp
  qed
qed

lemma catch_image_header_step:
  assumes inv: "dl_prog_offset ctx = length sofar"
              "length (fwu_stage_image_header ctx) = sizeof_image_header"
              "take (length sofar) (fwu_stage_image_header ctx) = take sizeof_image_header sofar"
  shows "\<exists>hdr'. length hdr' = sizeof_image_header
           \<and> take (length (sofar @ c)) hdr' = take sizeof_image_header (sofar @ c)
           \<and> catch_image_header ctx kv c =
               (if length sofar < sizeof_image_header \<and> sizeof_image_header \<le> length (sofar @ c)
                then (if ih_magic (take sizeof_image_header (sofar @ c)) \<noteq> IMAGE_MAGIC
                      then (False, ctx\<lparr>fwu_stage_image_header := hdr'\<rparr>, kv)
                      else (case nvImgUpgSt_setStageVersion
                                   (ih_ver (take sizeof_image_header (sofar @ c))) kv of
                              (ok, kv1) \<Rightarrow> (ok, ctx\<lparr>fwu_stage_image_header := hdr'\<rparr>, kv1)))
                else (True, ctx\<lparr>fwu_stage_image_header := hdr'\<rparr>, kv))"
proof (cases "length sofar < 32")
  case False
  then have "catch_image_header ctx kv c = (True, ctx, kv)"
    using inv by (simp add: catch_image_header_def sizeof_image_header_def)
  moreover have "take (length (sofar @ c)) (fwu_stage_image_header ctx) = take 32 (sofar @ c)"
    using inv False by (simp add: sizeof_image_header_def)
  ultimately show ?thesis
    using inv False
    by (intro exI [of _ "fwu_stage_image_header ctx"]) (simp add: sizeof_image_header_def)
next
  case True
  define todo where "todo = (if 32 - length sofar > length c then length c else 32 - length sofar)"
  let ?hdr' = "memcpy_at (fwu_stage_image_header ctx) (length sofar) (take todo c)"
  have l: "length (fwu_stage_image_header ctx) = 32"
    and i: "take (length sofar) (fwu_stage_image_header ctx) = take 32 sofar"
    using inv by (simp_all add: sizeof_image_header_def)
  note hs = header_splice [OF l i True todo_def]
  have full: "?hdr' = take 32 (sofar @ c)" if "32 \<le> length (sofar @ c)"
  proof -
    have "take (length (sofar @ c)) ?hdr' = ?hdr'" using hs(1) that by simp
    then show ?thesis using hs(2) by simp
  qed
  have c: "catch_image_header ctx kv c =
            (if length sofar + todo = 32 then
               (if ih_magic ?hdr' \<noteq> IMAGE_MAGIC then (False, ctx\<lparr>fwu_stage_image_header := ?hdr'\<rparr>, kv)
                else (case nvImgUpgSt_setStageVersion (ih_ver ?hdr') kv of
                        (ok, kv1) \<Rightarrow> (ok, ctx\<lparr>fwu_stage_image_header := ?hdr'\<rparr>, kv1)))
             else (True, ctx\<lparr>fwu_stage_image_header := ?hdr'\<rparr>, kv))"
    unfolding catch_image_header_def Let_def sizeof_image_header_def inv(1) todo_def
    using True by simp
  show ?thesis
    using hs True full c
    by (intro exI [of _ ?hdr']) (auto simp: sizeof_image_header_def)
qed

lemma CombinedDownloadInstall_step:
  assumes r: "staging_ready ctx sofar" and bd: "secondary_bd ctx = Some bd"
      and fit: "length (sofar @ c) \<le> length (bd_storage bd)"
      and pass: "length sofar < sizeof_image_header \<and> sizeof_image_header \<le> length (sofar @ c)
                 \<longrightarrow> ih_magic (take sizeof_image_header (sofar @ c)) = IMAGE_MAGIC
                     \<and> nvImgUpgSt_getAll kv \<noteq> None \<and> kv_writable kv"
  shows "\<exists>ctx'. CombinedDownloadInstall (Some ctx) kv c
                  = Inr (ADUC_Result_Download_Success, Some ctx',
                         if length sofar < sizeof_image_header
                            \<and> sizeof_image_header \<le> length (sofar @ c)
                         then snd (nvImgUpgSt_setStageVersion
                                     (ih_ver (take sizeof_image_header (sofar @ c))) kv)
                         else kv)
             \<and> staging_ready ctx' (sofar @ c)
             \<and> secondary_bd ctx'
                 = Some (bd\<lparr>bd_storage := memcpy_at (bd_storage bd) (length sofar) c\<rparr>)
             \<and> secondary_bd_progunit_size ctx' = secondary_bd_progunit_size ctx
             \<and> secondary_bd_readblock_size ctx' = secondary_bd_readblock_size ctx"
proof -
  let ?P = "secondary_bd_progunit_size ctx"
  let ?R = "secondary_bd_readblock_size ctx"
  let ?kv' = "if length sofar < sizeof_image_header \<and> sizeof_image_header \<le> length (sofar @ c)
              then snd (nvImgUpgSt_setStageVersion
                          (ih_ver (take sizeof_image_header (sofar @ c))) kv)
              else kv"
  from r bd have g: "geometry_ok bd ?P ?R"
    and ini: "secondary_bd_inited ctx" and pu: "secondary_bd_progunit ctx"
    and off: "dl_prog_offset ctx = length sofar"
    and hl: "length (fwu_stage_image_header ctx) = sizeof_image_header"
    and ht: "take (length sofar) (fwu_stage_image_header ctx) = take sizeof_image_header sofar"
    by (auto simp: staging_ready_def)
  from g have P: "0 < ?P" by (simp add: geometry_ok_def)
  from catch_image_header_step [OF off hl ht, of c kv] obtain hdr' where
    H: "length hdr' = sizeof_image_header
        \<and> take (length (sofar @ c)) hdr' = take sizeof_image_header (sofar @ c)
        \<and> catch_image_header ctx kv c =
               (if length sofar < sizeof_image_header \<and> sizeof_image_header \<le> length (sofar @ c)
                then (if ih_magic (take sizeof_image_header (sofar @ c)) \<noteq> IMAGE_MAGIC
                      then (False, ctx\<lparr>fwu_stage_image_header := hdr'\<rparr>, kv)
                      else (case nvImgUpgSt_setStageVersion
                                   (ih_ver (take sizeof_image_header (sofar @ c))) kv of
                              (ok, kv1) \<Rightarrow> (ok, ctx\<lparr>fwu_stage_image_header := hdr'\<rparr>, kv1)))
                else (True, ctx\<lparr>fwu_stage_image_header := hdr'\<rparr>, kv))" ..
  let ?ctx1 = "ctx\<lparr>fwu_stage_image_header := hdr'\<rparr>"
  have sv: "nvImgUpgSt_setStageVersion v kv = (True, snd (nvImgUpgSt_setStageVersion v kv))"
    if "nvImgUpgSt_getAll kv \<noteq> None" "kv_writable kv" for v
    using that by (auto simp: nvImgUpgSt_setStageVersion_def nvImgUpgSt_setAll_def)
  have ch: "catch_image_header ctx kv c = (True, ?ctx1, ?kv')"
  proof (cases "length sofar < sizeof_image_header \<and> sizeof_image_header \<le> length (sofar @ c)")
    case True
    then have m: "ih_magic (take sizeof_image_header (sofar @ c)) = IMAGE_MAGIC"
      and rd: "nvImgUpgSt_getAll kv \<noteq> None" and wr: "kv_writable kv"
      using pass by simp_all
    show ?thesis
      using H True m sv [OF rd wr, of "ih_ver (take sizeof_image_header (sofar @ c))"]
      by (simp split: prod.splits)
  next
    case False
    then show ?thesis using H by auto
  qed
  have fit': "length sofar + length c \<le> length (bd_storage bd)" using fit by simp
  have pc: "program_chunk bd ?P ?R (length sofar) c
              = Inr (True, bd\<lparr>bd_storage := memcpy_at (bd_storage bd) (length sofar) c\<rparr>)"
    using g fit' by (rule program_chunk_ok)
  let ?bd' = "bd\<lparr>bd_storage := memcpy_at (bd_storage bd) (length sofar) c\<rparr>"
  let ?ctx' = "?ctx1\<lparr>secondary_bd := Some ?bd', dl_prog_offset := length sofar + length c\<rparr>"
  define kv' where "kv' = ?kv'"
  have ch': "catch_image_header ctx kv c = (True, ?ctx1, kv')"
    using ch by (simp only: kv'_def)
  have res': "CombinedDownloadInstall (Some ctx) kv c
               = Inr (ADUC_Result_Download_Success, Some ?ctx', kv')"
    using bd ini pu P off pc by (simp add: CombinedDownloadInstall_def ch')
  have res: "CombinedDownloadInstall (Some ctx) kv c
               = Inr (ADUC_Result_Download_Success, Some ?ctx', ?kv')"
    using res' by (simp only: kv'_def)
  have lm: "length (memcpy_at (bd_storage bd) (length sofar) c) = length (bd_storage bd)"
    using fit' by (rule memcpy_at_length)
  have g': "geometry_ok ?bd' ?P ?R"
    using g lm by (simp add: geometry_ok_def)
  have r': "staging_ready ?ctx' (sofar @ c)"
    using g' ini pu H by (simp add: staging_ready_def)
  show ?thesis
    using res r' by (intro exI [of _ ?ctx']) simp
qed

lemma deliver_chunks_ok:
  assumes "staging_ready ctx sofar" and "secondary_bd ctx = Some bd"
      and "length (sofar @ concat cs) \<le> length (bd_storage bd)"
      and "length sofar < sizeof_image_header \<and> sizeof_image_header \<le> length (sofar @ concat cs)
             \<longrightarrow> ih_magic (take sizeof_image_header (sofar @ concat cs)) = IMAGE_MAGIC
                 \<and> nvImgUpgSt_getAll kv \<noteq> None \<and> kv_writable kv"
  shows "\<exists>ctx'. deliver_chunks False (ADUC_Result_Download_Success, Some ctx, kv) cs
                  = Inr (ADUC_Result_Download_Success, Some ctx',
                         if length sofar < sizeof_image_header
                            \<and> sizeof_image_header \<le> length (sofar @ concat cs)
                         then snd (nvImgUpgSt_setStageVersion
                                     (ih_ver (take sizeof_image_header (sofar @ concat cs))) kv)
                         else kv)
             \<and> staging_ready ctx' (sofar @ concat cs)
             \<and> secondary_bd ctx'
                 = Some (bd\<lparr>bd_storage := memcpy_at (bd_storage bd) (length sofar) (concat cs)\<rparr>)
             \<and> secondary_bd_progunit_size ctx' = secondary_bd_progunit_size ctx
             \<and> secondary_bd_readblock_size ctx' = secondary_bd_readblock_size ctx"
  using assms
proof (induction cs arbitrary: ctx sofar bd kv)
  case Nil
  then have "length sofar \<le> length (bd_storage bd)" by simp
  then have "memcpy_at (bd_storage bd) (length sofar) [] = bd_storage bd"
    by (rule memcpy_at_Nil)
  then show ?case
    using Nil by (intro exI [of _ ctx]) auto
next
  case (Cons c cs)
  let ?S = "sofar @ concat (c # cs)"
  let ?H = "sizeof_image_header"
  have fitc: "length (sofar @ c) \<le> length (bd_storage bd)"
    using Cons.prems(3) by simp
  have t32: "take ?H (sofar @ c) = take ?H ?S" if "?H \<le> length (sofar @ c)"
    using that by simp
  have passc: "length sofar < ?H \<and> ?H \<le> length (sofar @ c)
                 \<longrightarrow> ih_magic (take ?H (sofar @ c)) = IMAGE_MAGIC
                     \<and> nvImgUpgSt_getAll kv \<noteq> None \<and> kv_writable kv"
    using Cons.prems(4) t32 by auto
  let ?kv1 = "if length sofar < ?H \<and> ?H \<le> length (sofar @ c)
              then snd (nvImgUpgSt_setStageVersion (ih_ver (take ?H (sofar @ c))) kv)
              else kv"
  let ?bd1 = "bd\<lparr>bd_storage := memcpy_at (bd_storage bd) (length sofar) c\<rparr>"
  from CombinedDownloadInstall_step [OF Cons.prems(1) Cons.prems(2) fitc passc]
  obtain ctx1 where
    X: "CombinedDownloadInstall (Some ctx) kv c
          = Inr (ADUC_Result_Download_Success, Some ctx1, ?kv1)
        \<and> staging_ready ctx1 (sofar @ c)
        \<and> secondary_bd ctx1 = Some ?bd1
        \<and> secondary_bd_progunit_size ctx1 = secondary_bd_progunit_size ctx
        \<and> secondary_bd_readblock_size ctx1 = secondary_bd_readblock_size ctx" ..
  have lm: "length (bd_storage ?bd1) = length (bd_storage bd)"
    using fitc by (simp add: memcpy_at_length)
  have fit1: "length ((sofar @ c) @ concat cs) \<le> length (bd_storage ?bd1)"
    using Cons.prems(3) lm by simp
  have pass1: "length (sofar @ c) < ?H \<and> ?H \<le> length ((sofar @ c) @ concat cs)
                 \<longrightarrow> ih_magic (take ?H ((sofar @ c) @ concat cs)) = IMAGE_MAGIC
                     \<and> nvImgUpgSt_getAll ?kv1 \<noteq> None \<and> kv_writable ?kv1"
    using Cons.prems(4) by auto
  from X have r1: "staging_ready ctx1 (sofar @ c)" and b1: "secondary_bd ctx1 = Some ?bd1"
    by simp_all
  from Cons.IH [OF r1 b1 fit1 pass1] obtain ctx' where
    Y: "deliver_chunks False (ADUC_Result_Download_Success, Some ctx1, ?kv1) cs
          = Inr (ADUC_Result_Download_Success, Some ctx',
                 if length (sofar @ c) < ?H \<and> ?H \<le> length ((sofar @ c) @ concat cs)
                 then snd (nvImgUpgSt_setStageVersion
                             (ih_ver (take ?H ((sofar @ c) @ concat cs))) ?kv1)
                 else ?kv1)
        \<and> staging_ready ctx' ((sofar @ c) @ concat cs)
        \<and> secondary_bd ctx'
            = Some (?bd1\<lparr>bd_storage := memcpy_at (bd_storage ?bd1) (length (sofar @ c)) (concat cs)\<rparr>)
        \<and> secondary_bd_progunit_size ctx' = secondary_bd_progunit_size ctx1
        \<and> secondary_bd_readblock_size ctx' = secondary_bd_readblock_size ctx1" ..
  have kvf: "(if length (sofar @ c) < ?H \<and> ?H \<le> length ((sofar @ c) @ concat cs)
              then snd (nvImgUpgSt_setStageVersion
                          (ih_ver (take ?H ((sofar @ c) @ concat cs))) ?kv1)
              else ?kv1)
           = (if length sofar < ?H \<and> ?H \<le> length ?S
              then snd (nvImgUpgSt_setStageVersion (ih_ver (take ?H ?S)) kv)
              else kv)"
    using t32 by auto
  have "length sofar + length c + length (concat cs) \<le> length (bd_storage bd)"
    using Cons.prems(3) by simp
  then have "memcpy_at (memcpy_at (bd_storage bd) (length sofar) c) (length sofar + length c) (concat cs)
          = memcpy_at (bd_storage bd) (length sofar) (c @ concat cs)"
    by (rule memcpy_at_append)
  then have mem: "?bd1\<lparr>bd_storage := memcpy_at (bd_storage ?bd1) (length (sofar @ c)) (concat cs)\<rparr>
                = bd\<lparr>bd_storage := memcpy_at (bd_storage bd) (length sofar) (concat (c # cs))\<rparr>"
    by simp
  have run: "deliver_chunks False (ADUC_Result_Download_Success, Some ctx, kv) (c # cs)
               = deliver_chunks False (ADUC_Result_Download_Success, Some ctx1, ?kv1) cs"
    using X by (simp add: CombinedDownloadInstallTask_def IsAducResultCodeFailure_def)
  show ?case
    unfolding run
    using X Y unfolding kvf mem
    by (intro exI [of _ ctx']) simp
qed

lemma staging_ready_start:
  assumes "secondary_bd ctx = Some bd"
      and "geometry_ok bd (secondary_bd_progunit_size ctx) (secondary_bd_readblock_size ctx)"
      and "secondary_bd_inited ctx" and "secondary_bd_progunit ctx"
      and "dl_prog_offset ctx = 0"
      and "length (fwu_stage_image_header ctx) = sizeof_image_header"
  shows "staging_ready ctx []"
  using assms by (simp add: staging_ready_def)

lemma deliver_chunks_after_failure:
  "deliver_chunks cancel (ADUC_Result_Failure, x, kv) cs = Inr (ADUC_Result_Failure, x, kv)"
  by (induction cs) (simp_all add: CombinedDownloadInstallTask_def IsAducResultCodeFailure_def)

lemma deliver_chunks_append:
  "deliver_chunks cancel s (xs @ ys)
     = (case deliver_chunks cancel s xs of Inl f \<Rightarrow> Inl f | Inr s' \<Rightarrow> deliver_chunks cancel s' ys)"
  by (induction xs arbitrary: s) (simp_all split: sum.splits)

lemma CombinedDownloadInstall_bad_magic:
  assumes r: "staging_ready ctx sofar"
      and cross: "length sofar < sizeof_image_header" "sizeof_image_header \<le> length (sofar @ c)"
      and bad: "ih_magic (take sizeof_image_header (sofar @ c)) \<noteq> IMAGE_MAGIC"
  shows "\<exists>ctx'. CombinedDownloadInstall (Some ctx) kv c = Inr (ADUC_Result_Failure, Some ctx', kv)
             \<and> dl_prog_offset ctx' = dl_prog_offset ctx
             \<and> secondary_bd ctx' = secondary_bd ctx"
proof -
  from r have off: "dl_prog_offset ctx = length sofar"
    and hl: "length (fwu_stage_image_header ctx) = sizeof_image_header"
    and ht: "take (length sofar) (fwu_stage_image_header ctx) = take sizeof_image_header sofar"
    by (auto simp: staging_ready_def)
  from catch_image_header_step [OF off hl ht, of c kv] obtain hdr' where
    H: "length hdr' = sizeof_image_header
        \<and> take (length (sofar @ c)) hdr' = take sizeof_image_header (sofar @ c)
        \<and> catch_image_header ctx kv c =
               (if length sofar < sizeof_image_header \<and> sizeof_image_header \<le> length (sofar @ c)
                then (if ih_magic (take sizeof_image_header (sofar @ c)) \<noteq> IMAGE_MAGIC
                      then (False, ctx\<lparr>fwu_stage_image_header := hdr'\<rparr>, kv)
                      else (case nvImgUpgSt_setStageVersion
                                   (ih_ver (take sizeof_image_header (sofar @ c))) kv of
                              (ok, kv1) \<Rightarrow> (ok, ctx\<lparr>fwu_stage_image_header := hdr'\<rparr>, kv1)))
                else (True, ctx\<lparr>fwu_stage_image_header := hdr'\<rparr>, kv))" ..
  then have "catch_image_header ctx kv c = (False, ctx\<lparr>fwu_stage_image_header := hdr'\<rparr>, kv)"
    using cross bad by simp
  then have "CombinedDownloadInstall (Some ctx) kv c
               = Inr (ADUC_Result_Failure, Some (ctx\<lparr>fwu_stage_image_header := hdr'\<rparr>), kv)"
    by (simp add: CombinedDownloadInstall_def)
  then show ?thesis
    by (intro exI [of _ "ctx\<lparr>fwu_stage_image_header := hdr'\<rparr>"]) simp
qed

text \<open>Every stream of at least the header's size has a chunk in which the header completes.\<close>

lemma header_chunk_exists:
  assumes "n \<le> length (concat cs)" and "0 < n"
  shows "\<exists>pre c post. cs = pre @ c # post \<and> length (concat pre) < n
           \<and> n \<le> length (concat pre) + length c"
  using assms
proof (induction cs arbitrary: n)
  case Nil
  then show ?case by simp
next
  case (Cons x xs)
  show ?case
  proof (cases "n \<le> length x")
    case True
    then show ?thesis
      using Cons.prems by (intro exI [of _ "[]"] exI [of _ x] exI [of _ xs]) simp
  next
    case False
    then have "n - length x \<le> length (concat xs)" "0 < n - length x"
      using Cons.prems by simp_all
    from Cons.IH [OF this] obtain pre c post where
      "xs = pre @ c # post" "length (concat pre) < n - length x"
      "n - length x \<le> length (concat pre) + length c"
      by blast
    then show ?thesis
      using False by (intro exI [of _ "x # pre"] exI [of _ c] exI [of _ post]) auto
  qed
qed

lemma demo_ctx_reinit: "OTACtx_Reinit (Some demo_device) demo_store = (Some demo_ctx, demo_store)"
  by code_simp

lemma coarse_ctx_reinit: "OTACtx_Reinit (Some coarse_device) demo_store = (Some coarse_ctx, demo_store)"
  by code_simp

lemma demo_geometry: "geometry_ok demo_device 16 1024"
  by (simp add: geometry_ok_def demo_device_def)

subsection \<open>What a successful chunk write has done\<close>

















text \<open>
  Claim C1 (chunk-split invariance), as amended. Let the context be as
  \<^verbatim>\<open>OTACtx_Reinit\<close> leaves it (offset 0, device present and initialised, buffers
  allocated), with a positive program-unit size that divides the read-block size, a read
  size that divides the read-block size and a device size that is a multiple of the
  read-block size; let the byte sequence fit the device and, when it is at least as long as
  the image header, start with \<^verbatim>\<open>IMAGE_MAGIC\<close> while the state store is readable and
  writable. Then for every two ways \<open>cs\<close> and \<open>cs2\<close> of splitting the sequence into
  consecutive chunks, delivering the chunks succeeds for both, both end at the same offset
  and with the same device, and that device holds the sequence over \<open>[0, L)\<close> and its
  old contents beyond.
\<close>

theorem chunk_split_invariance:
  assumes "secondary_bd ctx = Some bd"
      and "geometry_ok bd (secondary_bd_progunit_size ctx) (secondary_bd_readblock_size ctx)"
      and "secondary_bd_inited ctx" and "secondary_bd_progunit ctx"
      and "dl_prog_offset ctx = 0"
      and "length (fwu_stage_image_header ctx) = sizeof_image_header"
      and "length (concat cs) \<le> length (bd_storage bd)"
      and "sizeof_image_header \<le> length (concat cs)
             \<longrightarrow> ih_magic (take sizeof_image_header (concat cs)) = IMAGE_MAGIC
                 \<and> nvImgUpgSt_getAll kv \<noteq> None \<and> kv_writable kv"
      and "concat cs2 = concat cs"
  shows "\<exists>ctx1 ctx2 kv' bd'.
           deliver_chunks False (ADUC_Result_Download_Success, Some ctx, kv) cs
             = Inr (ADUC_Result_Download_Success, Some ctx1, kv')
           \<and> deliver_chunks False (ADUC_Result_Download_Success, Some ctx, kv) cs2
             = Inr (ADUC_Result_Download_Success, Some ctx2, kv')
           \<and> secondary_bd ctx1 = Some bd' \<and> secondary_bd ctx2 = Some bd'
           \<and> dl_prog_offset ctx1 = length (concat cs) \<and> dl_prog_offset ctx2 = length (concat cs)
           \<and> take (length (concat cs)) (bd_storage bd') = concat cs
           \<and> drop (length (concat cs)) (bd_storage bd') = drop (length (concat cs)) (bd_storage bd)"
proof -
  let ?H = "sizeof_image_header"
  let ?S = "concat cs"
  let ?kv' = "if length ([]::byte list) < ?H \<and> ?H \<le> length ([] @ ?S)
              then snd (nvImgUpgSt_setStageVersion (ih_ver (take ?H ([] @ ?S))) kv) else kv"
  let ?bd' = "bd\<lparr>bd_storage := memcpy_at (bd_storage bd) (length ([]::byte list)) ?S\<rparr>"
  have r0: "staging_ready ctx []"
    using assms(1-6) by (rule staging_ready_start)
  have fit: "length ([] @ ?S) \<le> length (bd_storage bd)"
    using assms(7) by simp
  have pass: "length ([]::byte list) < ?H \<and> ?H \<le> length ([] @ ?S)
                 \<longrightarrow> ih_magic (take ?H ([] @ ?S)) = IMAGE_MAGIC
                     \<and> nvImgUpgSt_getAll kv \<noteq> None \<and> kv_writable kv"
    using assms(8) by simp
  have fit2: "length ([] @ concat cs2) \<le> length (bd_storage bd)"
    using fit assms(9) by simp
  have pass2: "length ([]::byte list) < ?H \<and> ?H \<le> length ([] @ concat cs2)
                 \<longrightarrow> ih_magic (take ?H ([] @ concat cs2)) = IMAGE_MAGIC
                     \<and> nvImgUpgSt_getAll kv \<noteq> None \<and> kv_writable kv"
    using pass assms(9) by simp
  from deliver_chunks_ok [OF r0 assms(1) fit pass] obtain ctx1 where
    A: "deliver_chunks False (ADUC_Result_Download_Success, Some ctx, kv) cs
          = Inr (ADUC_Result_Download_Success, Some ctx1, ?kv')
        \<and> staging_ready ctx1 ([] @ ?S)
        \<and> secondary_bd ctx1 = Some ?bd'
        \<and> secondary_bd_progunit_size ctx1 = secondary_bd_progunit_size ctx
        \<and> secondary_bd_readblock_size ctx1 = secondary_bd_readblock_size ctx" ..
  from deliver_chunks_ok [OF r0 assms(1) fit2 pass2] obtain ctx2 where
    B: "deliver_chunks False (ADUC_Result_Download_Success, Some ctx, kv) cs2
          = Inr (ADUC_Result_Download_Success, Some ctx2,
                 if length ([]::byte list) < ?H \<and> ?H \<le> length ([] @ concat cs2)
                 then snd (nvImgUpgSt_setStageVersion (ih_ver (take ?H ([] @ concat cs2))) kv)
                 else kv)
        \<and> staging_ready ctx2 ([] @ concat cs2)
        \<and> secondary_bd ctx2
            = Some (bd\<lparr>bd_storage := memcpy_at (bd_storage bd) (length ([]::byte list)) (concat cs2)\<rparr>)
        \<and> secondary_bd_progunit_size ctx2 = secondary_bd_progunit_size ctx
        \<and> secondary_bd_readblock_size ctx2 = secondary_bd_readblock_size ctx" ..
  have o1: "dl_prog_offset ctx1 = length ?S" using A by (simp add: staging_ready_def)
  have o2: "dl_prog_offset ctx2 = length ?S" using B assms(9) by (simp add: staging_ready_def)
  have m: "bd_storage ?bd' = ?S @ drop (length ?S) (bd_storage bd)"
    by (simp add: memcpy_at_def)
  show ?thesis
    using A B o1 o2 m assms(9)
    by (intro exI [of _ ctx1] exI [of _ ctx2] exI [of _ ?kv'] exI [of _ ?bd']) simp
qed

theorem chunk_split_invariance_witness:
  "secondary_bd demo_ctx = Some demo_device
   \<and> geometry_ok demo_device (secondary_bd_progunit_size demo_ctx) (secondary_bd_readblock_size demo_ctx)
   \<and> secondary_bd_inited demo_ctx \<and> secondary_bd_progunit demo_ctx
   \<and> dl_prog_offset demo_ctx = 0
   \<and> length (fwu_stage_image_header demo_ctx) = sizeof_image_header
   \<and> length (concat [[0x3d, 0xb8, 0xf3], 0x96 # replicate 30 7, [1, 2, 3, 4, 5 :: byte]])
        \<le> length (bd_storage demo_device)
   \<and> ih_magic (take sizeof_image_header
                  (concat [[0x3d, 0xb8, 0xf3], 0x96 # replicate 30 7, [1, 2, 3, 4, 5]])) = IMAGE_MAGIC
   \<and> nvImgUpgSt_getAll demo_store \<noteq> None \<and> kv_writable demo_store
   \<and> concat [[0x3d, 0xb8, 0xf3, 0x96] @ replicate 30 7 @ [1, 2, 3, 4, 5 :: byte]]
       = concat [[0x3d, 0xb8, 0xf3], 0x96 # replicate 30 7, [1, 2, 3, 4, 5]]
   \<and> (\<exists>ctx1 ctx2 kv' bd'.
         deliver_chunks False (ADUC_Result_Download_Success, Some demo_ctx, demo_store)
             [[0x3d, 0xb8, 0xf3], 0x96 # replicate 30 7, [1, 2, 3, 4, 5]]
           = Inr (ADUC_Result_Download_Success, Some ctx1, kv')
         \<and> deliver_chunks False (ADUC_Result_Download_Success, Some demo_ctx, demo_store)
             [[0x3d, 0xb8, 0xf3, 0x96] @ replicate 30 7 @ [1, 2, 3, 4, 5]]
           = Inr (ADUC_Result_Download_Success, Some ctx2, kv')
         \<and> secondary_bd ctx1 = Some bd' \<and> secondary_bd ctx2 = Some bd'
         \<and> dl_prog_offset ctx1
             = length (concat [[0x3d, 0xb8, 0xf3], 0x96 # replicate 30 7, [1, 2, 3, 4, 5 :: byte]])
         \<and> dl_prog_offset ctx2
             = length (concat [[0x3d, 0xb8, 0xf3], 0x96 # replicate 30 7, [1, 2, 3, 4, 5 :: byte]])
         \<and> take (length (concat [[0x3d, 0xb8, 0xf3], 0x96 # replicate 30 7, [1, 2, 3, 4, 5 :: byte]]))
               (bd_storage bd')
             = concat [[0x3d, 0xb8, 0xf3], 0x96 # replicate 30 7, [1, 2, 3, 4, 5]]
         \<and> drop (length (concat [[0x3d, 0xb8, 0xf3], 0x96 # replicate 30 7, [1, 2, 3, 4, 5 :: byte]]))
               (bd_storage bd')
             = drop (length (concat [[0x3d, 0xb8, 0xf3], 0x96 # replicate 30 7, [1, 2, 3, 4, 5 :: byte]]))
                 (bd_storage demo_device))"
proof -
  let ?cs = "[[0x3d, 0xb8, 0xf3], 0x96 # replicate 30 7, [1, 2, 3, 4, 5 :: byte]]"
  let ?cs2 = "[[0x3d, 0xb8, 0xf3, 0x96] @ replicate 30 7 @ [1, 2, 3, 4, 5 :: byte]]"
  have h1: "secondary_bd demo_ctx = Some demo_device" by (simp add: demo_ctx_def)
  have h2: "geometry_ok demo_device (secondary_bd_progunit_size demo_ctx)
              (secondary_bd_readblock_size demo_ctx)"
    by (simp add: demo_ctx_def demo_geometry)
  have h3: "secondary_bd_inited demo_ctx" "secondary_bd_progunit demo_ctx"
           "dl_prog_offset demo_ctx = 0"
           "length (fwu_stage_image_header demo_ctx) = sizeof_image_header"
    by (simp_all add: demo_ctx_def sizeof_image_header_def)
  have h4: "length (concat ?cs) \<le> length (bd_storage demo_device)"
    by (simp add: demo_device_def)
  have h5: "ih_magic (take sizeof_image_header (concat ?cs)) = IMAGE_MAGIC"
    by (simp add: ih_magic_def le_u32_def IMAGE_MAGIC_def sizeof_image_header_def)
  have h6: "nvImgUpgSt_getAll demo_store \<noteq> None" "kv_writable demo_store"
    by (simp_all add: demo_store_def nvImgUpgSt_getAll_def sizeof_NVImgUpgSt_def)
  have h7: "concat ?cs2 = concat ?cs" by simp
  have h8: "sizeof_image_header \<le> length (concat ?cs)
             \<longrightarrow> ih_magic (take sizeof_image_header (concat ?cs)) = IMAGE_MAGIC
                 \<and> nvImgUpgSt_getAll demo_store \<noteq> None \<and> kv_writable demo_store"
    using h5 h6 by simp
  show ?thesis
    by (intro conjI h1 h2 h3 h4 h5 h6 h7 chunk_split_invariance [OF h1 h2 h3 h4 h8 h7])
qed

text \<open>
  The claim as stated, for every positive program-unit size, fails when the program unit
  is larger than the read block: for a device with a 2048-byte program unit
  \<^verbatim>\<open>OTACtx_Reinit\<close> builds a context with a 1024-byte read block, and delivering a
  one-byte stream stops in \<^verbatim>\<open>MBED_ASSERT(readblock_size >= progunit_size)\<close> of
  \<^verbatim>\<open>bd_read_program_unit\<close>; nothing is committed. It also fails, on the device with
  16-byte program units, for a 33-byte sequence that does not start with
  \<^verbatim>\<open>IMAGE_MAGIC\<close>: the header gate of \<^verbatim>\<open>CombinedDownloadInstall\<close> rejects the
  chunk and the device stays erased.
\<close>

theorem chunk_split_program_unit_counterexample:
  "OTACtx_Reinit (Some coarse_device) demo_store = (Some coarse_ctx, demo_store)
   \<and> (0::nat) < secondary_bd_progunit_size coarse_ctx
   \<and> deliver_chunks False (ADUC_Result_Download_Success, Some coarse_ctx, demo_store) [[1]]
       = Inl AssertFailed
   \<and> deliver_chunks False (ADUC_Result_Download_Success, Some demo_ctx, demo_store)
         [[7, 7, 7, 7] @ replicate 29 7]
       = Inr (ADUC_Result_Failure,
              Some (demo_ctx\<lparr>fwu_stage_image_header := [7, 7, 7, 7] @ replicate 28 7\<rparr>),
              demo_store)"
proof -
  have a: "OTACtx_Reinit (Some coarse_device) demo_store = (Some coarse_ctx, demo_store)"
    by code_simp
  have b: "(0::nat) < secondary_bd_progunit_size coarse_ctx"
    by (simp add: coarse_ctx_def)
  have c: "deliver_chunks False (ADUC_Result_Download_Success, Some coarse_ctx, demo_store) [[1]]
             = Inl AssertFailed"
    by code_simp
  have d: "deliver_chunks False (ADUC_Result_Download_Success, Some demo_ctx, demo_store)
             [[7, 7, 7, 7] @ replicate 29 7]
           = Inr (ADUC_Result_Failure,
                  Some (demo_ctx\<lparr>fwu_stage_image_header := [7, 7, 7, 7] @ replicate 28 7\<rparr>),
                  demo_store)"
    by (simp add: CombinedDownloadInstallTask_def IsAducResultCodeFailure_def
          CombinedDownloadInstall_def catch_image_header_def Let_def demo_ctx_def memcpy_at_def
          ih_magic_def le_u32_def IMAGE_MAGIC_def sizeof_image_header_def)
  show ?thesis
    by (intro conjI a b c d)
qed

lemma CombinedDownloadInstall_outcomes:
  assumes "catch_image_header ctx kv c = (True, ctx1, kv1)"
  shows "(\<exists>f. CombinedDownloadInstall (Some ctx) kv c = Inl f)
       \<or> (\<exists>ctx'. CombinedDownloadInstall (Some ctx) kv c = Inr (ADUC_Result_Failure, Some ctx', kv1)
                  \<and> dl_prog_offset ctx' = dl_prog_offset ctx1
                  \<and> fwu_stage_image_header ctx' = fwu_stage_image_header ctx1)
       \<or> (\<exists>ctx'. CombinedDownloadInstall (Some ctx) kv c
                    = Inr (ADUC_Result_Download_Success, Some ctx', kv1)
                  \<and> dl_prog_offset ctx' = dl_prog_offset ctx1 + length c
                  \<and> fwu_stage_image_header ctx' = fwu_stage_image_header ctx1)"
  using assms
  by (auto simp: CombinedDownloadInstall_def split: option.splits sum.splits bool.splits prod.splits)

lemma deliver_chunks_bad_magic:
  assumes "dl_prog_offset ctx = length sofar"
      and "length (fwu_stage_image_header ctx) = sizeof_image_header"
      and "take (length sofar) (fwu_stage_image_header ctx) = take sizeof_image_header sofar"
      and "length sofar < sizeof_image_header"
      and "sizeof_image_header \<le> length (sofar @ concat cs)"
      and "ih_magic (take sizeof_image_header (sofar @ concat cs)) \<noteq> IMAGE_MAGIC"
      and "deliver_chunks False (ADUC_Result_Download_Success, Some ctx, kv) cs = Inr (res, x, kv')"
  shows "res = ADUC_Result_Failure \<and> kv' = kv
         \<and> (\<exists>ctx'. x = Some ctx' \<and> dl_prog_offset ctx' < sizeof_image_header)"
  using assms
proof (induction cs arbitrary: ctx sofar)
  case Nil
  then show ?case by simp
next
  case (Cons c cs)
  let ?H = "sizeof_image_header"
  from catch_image_header_step [OF Cons.prems(1-3), of c kv] obtain hdr' where
    H: "length hdr' = ?H
        \<and> take (length (sofar @ c)) hdr' = take ?H (sofar @ c)
        \<and> catch_image_header ctx kv c =
               (if length sofar < ?H \<and> ?H \<le> length (sofar @ c)
                then (if ih_magic (take ?H (sofar @ c)) \<noteq> IMAGE_MAGIC
                      then (False, ctx\<lparr>fwu_stage_image_header := hdr'\<rparr>, kv)
                      else (case nvImgUpgSt_setStageVersion (ih_ver (take ?H (sofar @ c))) kv of
                              (ok, kv1) \<Rightarrow> (ok, ctx\<lparr>fwu_stage_image_header := hdr'\<rparr>, kv1)))
                else (True, ctx\<lparr>fwu_stage_image_header := hdr'\<rparr>, kv))" ..
  let ?ctx1 = "ctx\<lparr>fwu_stage_image_header := hdr'\<rparr>"
  have task: "deliver_chunks False (ADUC_Result_Download_Success, Some ctx, kv) (c # cs)
                = (case CombinedDownloadInstall (Some ctx) kv c of
                     Inl f \<Rightarrow> Inl f | Inr s' \<Rightarrow> deliver_chunks False s' cs)"
    by (simp add: CombinedDownloadInstallTask_def IsAducResultCodeFailure_def)
  show ?case
  proof (cases "?H \<le> length (sofar @ c)")
    case True
    then have e: "take ?H (sofar @ c) = take ?H (sofar @ concat (c # cs))" by simp
    have "ih_magic (take ?H (sofar @ c)) \<noteq> IMAGE_MAGIC"
      unfolding e by (rule Cons.prems(6))
    then have "catch_image_header ctx kv c = (False, ?ctx1, kv)"
      using H True Cons.prems(4) by simp
    then have "CombinedDownloadInstall (Some ctx) kv c = Inr (ADUC_Result_Failure, Some ?ctx1, kv)"
      by (simp add: CombinedDownloadInstall_def)
    then have "deliver_chunks False (ADUC_Result_Download_Success, Some ctx, kv) (c # cs)
                 = Inr (ADUC_Result_Failure, Some ?ctx1, kv)"
      unfolding task by (simp add: deliver_chunks_after_failure)
    then have "res = ADUC_Result_Failure" "x = Some ?ctx1" "kv' = kv"
      using Cons.prems(7) by simp_all
    then show ?thesis
      using Cons.prems(1) Cons.prems(4) by simp
  next
    case False
    then have ch: "catch_image_header ctx kv c = (True, ?ctx1, kv)"
      using H by simp
    have o1: "dl_prog_offset ?ctx1 = length sofar" using Cons.prems(1) by simp
    from CombinedDownloadInstall_outcomes [OF ch]
    consider (fault) f where "CombinedDownloadInstall (Some ctx) kv c = Inl f"
      | (failure) ctx' where
          "CombinedDownloadInstall (Some ctx) kv c = Inr (ADUC_Result_Failure, Some ctx', kv)"
          "dl_prog_offset ctx' = dl_prog_offset ?ctx1"
      | (success) ctx' where
          "CombinedDownloadInstall (Some ctx) kv c = Inr (ADUC_Result_Download_Success, Some ctx', kv)"
          "dl_prog_offset ctx' = dl_prog_offset ?ctx1 + length c"
          "fwu_stage_image_header ctx' = fwu_stage_image_header ?ctx1"
      by blast
    then show ?thesis
    proof cases
      case fault
      then show ?thesis using Cons.prems(7) unfolding task by simp
    next
      case failure
      then have "deliver_chunks False (ADUC_Result_Download_Success, Some ctx, kv) (c # cs)
                   = Inr (ADUC_Result_Failure, Some ctx', kv)"
        unfolding task by (simp add: deliver_chunks_after_failure)
      then have "res = ADUC_Result_Failure" "x = Some ctx'" "kv' = kv"
        using Cons.prems(7) by simp_all
      then show ?thesis
        using failure(2) o1 Cons.prems(4) by simp
    next
      case success
      have i1: "dl_prog_offset ctx' = length (sofar @ c)" using success(2) o1 by simp
      have i2: "length (fwu_stage_image_header ctx') = ?H" using success(3) H by simp
      have i3: "take (length (sofar @ c)) (fwu_stage_image_header ctx') = take ?H (sofar @ c)"
        using success(3) H by simp
      have i4: "length (sofar @ c) < ?H" using False by simp
      have i5: "?H \<le> length ((sofar @ c) @ concat cs)" using Cons.prems(5) by simp
      have e6: "(sofar @ c) @ concat cs = sofar @ concat (c # cs)" by simp
      have i6: "ih_magic (take ?H ((sofar @ c) @ concat cs)) \<noteq> IMAGE_MAGIC"
        unfolding e6 by (rule Cons.prems(6))
      have i7: "deliver_chunks False (ADUC_Result_Download_Success, Some ctx', kv) cs
                  = Inr (res, x, kv')"
        using Cons.prems(7) success(1) unfolding task by simp
      show ?thesis
        by (rule Cons.IH [OF i1 i2 i3 i4 i5 i6 i7])
    qed
  qed
qed

text \<open>
  Claim C7 (header gate). Let the download start at offset 0 with a header buffer of the
  header's size, and let the stream be at least as long as the image header and not start
  with \<^verbatim>\<open>IMAGE_MAGIC\<close>. Then, first, whenever the delivery of the chunks returns, it
  returns \<^verbatim>\<open>ADUC_Result_Failure\<close> with a download offset below the header's size and
  with the state store untouched, whatever the device does. Second, on a device of the
  geometry above that the stream fits, the stream splits as \<open>pre @ c # post\<close> where
  \<open>c\<close> is the chunk during which the header range becomes fully populated: the chunks of
  \<open>pre\<close> are accepted, the call on \<open>c\<close> returns \<^verbatim>\<open>ADUC_Result_Failure\<close> without
  advancing the offset, the chunks of \<open>post\<close> are not processed, and the offset at the
  end is the length of \<open>pre\<close>.
\<close>

theorem header_gate:
  assumes "dl_prog_offset ctx = 0"
      and "length (fwu_stage_image_header ctx) = sizeof_image_header"
      and "sizeof_image_header \<le> length (concat cs)"
      and "ih_magic (take sizeof_image_header (concat cs)) \<noteq> IMAGE_MAGIC"
  shows "(\<forall>res x kv'.
            deliver_chunks False (ADUC_Result_Download_Success, Some ctx, kv) cs = Inr (res, x, kv')
            \<longrightarrow> res = ADUC_Result_Failure \<and> kv' = kv
                \<and> (\<exists>ctx'. x = Some ctx' \<and> dl_prog_offset ctx' < sizeof_image_header))
       \<and> (\<forall>bd. secondary_bd ctx = Some bd
                \<and> geometry_ok bd (secondary_bd_progunit_size ctx) (secondary_bd_readblock_size ctx)
                \<and> secondary_bd_inited ctx \<and> secondary_bd_progunit ctx
                \<and> length (concat cs) \<le> length (bd_storage bd)
            \<longrightarrow> (\<exists>pre c post ctx1 ctx2.
                   cs = pre @ c # post
                   \<and> length (concat pre) < sizeof_image_header
                   \<and> sizeof_image_header \<le> length (concat pre) + length c
                   \<and> deliver_chunks False (ADUC_Result_Download_Success, Some ctx, kv) pre
                       = Inr (ADUC_Result_Download_Success, Some ctx1, kv)
                   \<and> dl_prog_offset ctx1 = length (concat pre)
                   \<and> CombinedDownloadInstall (Some ctx1) kv c
                       = Inr (ADUC_Result_Failure, Some ctx2, kv)
                   \<and> dl_prog_offset ctx2 = length (concat pre)
                   \<and> deliver_chunks False (ADUC_Result_Download_Success, Some ctx, kv) cs
                       = Inr (ADUC_Result_Failure, Some ctx2, kv)))"
proof (rule conjI; intro allI impI)
  fix res x kv'
  assume run: "deliver_chunks False (ADUC_Result_Download_Success, Some ctx, kv) cs = Inr (res, x, kv')"
  have i1: "dl_prog_offset ctx = length ([]::byte list)" using assms(1) by simp
  have i3: "take (length ([]::byte list)) (fwu_stage_image_header ctx)
              = take sizeof_image_header []" by simp
  have i4: "length ([]::byte list) < sizeof_image_header" by (simp add: sizeof_image_header_def)
  have i5: "sizeof_image_header \<le> length ([] @ concat cs)" using assms(3) by simp
  have i6: "ih_magic (take sizeof_image_header ([] @ concat cs)) \<noteq> IMAGE_MAGIC"
    using assms(4) by simp
  show "res = ADUC_Result_Failure \<and> kv' = kv
        \<and> (\<exists>ctx'. x = Some ctx' \<and> dl_prog_offset ctx' < sizeof_image_header)"
    by (rule deliver_chunks_bad_magic [OF i1 assms(2) i3 i4 i5 i6 run])
next
  fix bd
  assume dev: "secondary_bd ctx = Some bd
                \<and> geometry_ok bd (secondary_bd_progunit_size ctx) (secondary_bd_readblock_size ctx)
                \<and> secondary_bd_inited ctx \<and> secondary_bd_progunit ctx
                \<and> length (concat cs) \<le> length (bd_storage bd)"
  let ?H = "sizeof_image_header"
  have H0: "0 < ?H" by (simp add: sizeof_image_header_def)
  from header_chunk_exists [OF assms(3) H0] obtain pre c post where
    cs: "cs = pre @ c # post" and lp: "length (concat pre) < ?H"
    and lc: "?H \<le> length (concat pre) + length c"
    by blast
  have b: "secondary_bd ctx = Some bd" using dev by simp
  have r0: "staging_ready ctx []"
    using dev assms(1) assms(2) by (intro staging_ready_start [of ctx bd]) simp_all
  have fitp: "length ([] @ concat pre) \<le> length (bd_storage bd)"
    using dev cs by simp
  have passp: "length ([]::byte list) < ?H \<and> ?H \<le> length ([] @ concat pre)
                 \<longrightarrow> ih_magic (take ?H ([] @ concat pre)) = IMAGE_MAGIC
                     \<and> nvImgUpgSt_getAll kv \<noteq> None \<and> kv_writable kv"
    using lp by simp
  from deliver_chunks_ok [OF r0 b fitp passp] obtain ctx1 where
    D: "deliver_chunks False (ADUC_Result_Download_Success, Some ctx, kv) pre
          = Inr (ADUC_Result_Download_Success, Some ctx1,
                 if length ([]::byte list) < ?H \<and> ?H \<le> length ([] @ concat pre)
                 then snd (nvImgUpgSt_setStageVersion (ih_ver (take ?H ([] @ concat pre))) kv)
                 else kv)
        \<and> staging_ready ctx1 ([] @ concat pre)
        \<and> secondary_bd ctx1
            = Some (bd\<lparr>bd_storage := memcpy_at (bd_storage bd) (length ([]::byte list)) (concat pre)\<rparr>)
        \<and> secondary_bd_progunit_size ctx1 = secondary_bd_progunit_size ctx
        \<and> secondary_bd_readblock_size ctx1 = secondary_bd_readblock_size ctx" ..
  then have d1: "deliver_chunks False (ADUC_Result_Download_Success, Some ctx, kv) pre
                   = Inr (ADUC_Result_Download_Success, Some ctx1, kv)"
    and r1: "staging_ready ctx1 (concat pre)"
    using lp by simp_all
  have o1: "dl_prog_offset ctx1 = length (concat pre)"
    using r1 by (simp add: staging_ready_def)
  have t: "take ?H (concat pre @ c) = take ?H (concat cs)"
    using lc cs by simp
  have bad: "ih_magic (take ?H (concat pre @ c)) \<noteq> IMAGE_MAGIC"
    unfolding t by (rule assms(4))
  have lc': "?H \<le> length (concat pre @ c)" using lc by simp
  from CombinedDownloadInstall_bad_magic [OF r1 lp lc' bad, of kv] obtain ctx2 where
    F: "CombinedDownloadInstall (Some ctx1) kv c = Inr (ADUC_Result_Failure, Some ctx2, kv)
        \<and> dl_prog_offset ctx2 = dl_prog_offset ctx1
        \<and> secondary_bd ctx2 = secondary_bd ctx1" ..
  have run: "deliver_chunks False (ADUC_Result_Download_Success, Some ctx, kv) cs
               = Inr (ADUC_Result_Failure, Some ctx2, kv)"
    unfolding cs deliver_chunks_append d1
    using F
    by (simp add: CombinedDownloadInstallTask_def IsAducResultCodeFailure_def
          deliver_chunks_after_failure)
  show "\<exists>pre c post ctx1 ctx2.
           cs = pre @ c # post
           \<and> length (concat pre) < sizeof_image_header
           \<and> sizeof_image_header \<le> length (concat pre) + length c
           \<and> deliver_chunks False (ADUC_Result_Download_Success, Some ctx, kv) pre
               = Inr (ADUC_Result_Download_Success, Some ctx1, kv)
           \<and> dl_prog_offset ctx1 = length (concat pre)
           \<and> CombinedDownloadInstall (Some ctx1) kv c = Inr (ADUC_Result_Failure, Some ctx2, kv)
           \<and> dl_prog_offset ctx2 = length (concat pre)
           \<and> deliver_chunks False (ADUC_Result_Download_Success, Some ctx, kv) cs
               = Inr (ADUC_Result_Failure, Some ctx2, kv)"
    using cs lp lc d1 o1 F run
    by (intro exI [of _ pre] exI [of _ c] exI [of _ post] exI [of _ ctx1] exI [of _ ctx2]) simp
qed

theorem header_gate_witness:
  "dl_prog_offset demo_ctx = 0
   \<and> length (fwu_stage_image_header demo_ctx) = sizeof_image_header
   \<and> sizeof_image_header \<le> length (concat [[1, 2, 3], 4 # replicate 30 7, [1, 2, 3, 4, 5 :: byte]])
   \<and> ih_magic (take sizeof_image_header
                  (concat [[1, 2, 3], 4 # replicate 30 7, [1, 2, 3, 4, 5]])) \<noteq> IMAGE_MAGIC
   \<and> (secondary_bd demo_ctx = Some demo_device
      \<and> geometry_ok demo_device (secondary_bd_progunit_size demo_ctx)
           (secondary_bd_readblock_size demo_ctx)
      \<and> secondary_bd_inited demo_ctx \<and> secondary_bd_progunit demo_ctx
      \<and> length (concat [[1, 2, 3], 4 # replicate 30 7, [1, 2, 3, 4, 5 :: byte]])
           \<le> length (bd_storage demo_device))
   \<and> (\<exists>pre c post ctx1 ctx2.
           [[1, 2, 3], 4 # replicate 30 7, [1, 2, 3, 4, 5 :: byte]] = pre @ c # post
           \<and> length (concat pre) < sizeof_image_header
           \<and> sizeof_image_header \<le> length (concat pre) + length c
           \<and> deliver_chunks False (ADUC_Result_Download_Success, Some demo_ctx, demo_store) pre
               = Inr (ADUC_Result_Download_Success, Some ctx1, demo_store)
           \<and> dl_prog_offset ctx1 = length (concat pre)
           \<and> CombinedDownloadInstall (Some ctx1) demo_store c
               = Inr (ADUC_Result_Failure, Some ctx2, demo_store)
           \<and> dl_prog_offset ctx2 = length (concat pre)
           \<and> deliver_chunks False (ADUC_Result_Download_Success, Some demo_ctx, demo_store)
                 [[1, 2, 3], 4 # replicate 30 7, [1, 2, 3, 4, 5]]
               = Inr (ADUC_Result_Failure, Some ctx2, demo_store))"
proof -
  let ?cs = "[[1, 2, 3], 4 # replicate 30 7, [1, 2, 3, 4, 5 :: byte]]"
  have h1: "dl_prog_offset demo_ctx = 0"
    and h2: "length (fwu_stage_image_header demo_ctx) = sizeof_image_header"
    by (simp_all add: demo_ctx_def sizeof_image_header_def)
  have h3: "sizeof_image_header \<le> length (concat ?cs)"
    by (simp add: sizeof_image_header_def)
  have h4: "ih_magic (take sizeof_image_header (concat ?cs)) \<noteq> IMAGE_MAGIC"
    by (simp add: ih_magic_def le_u32_def IMAGE_MAGIC_def sizeof_image_header_def)
  have d: "secondary_bd demo_ctx = Some demo_device
      \<and> geometry_ok demo_device (secondary_bd_progunit_size demo_ctx)
           (secondary_bd_readblock_size demo_ctx)
      \<and> secondary_bd_inited demo_ctx \<and> secondary_bd_progunit demo_ctx
      \<and> length (concat ?cs) \<le> length (bd_storage demo_device)"
  proof -
    have "geometry_ok demo_device (secondary_bd_progunit_size demo_ctx)
           (secondary_bd_readblock_size demo_ctx)"
      by (simp add: demo_ctx_def demo_geometry)
    moreover have "length (concat ?cs) \<le> length (bd_storage demo_device)"
      by (simp add: demo_device_def)
    moreover have "secondary_bd demo_ctx = Some demo_device" "secondary_bd_inited demo_ctx"
      "secondary_bd_progunit demo_ctx"
      by (simp_all add: demo_ctx_def)
    ultimately show ?thesis by (intro conjI)
  qed
  note g = header_gate [OF h1 h2 h3 h4, of demo_store]
  have e: "\<exists>pre c post ctx1 ctx2.
           ?cs = pre @ c # post
           \<and> length (concat pre) < sizeof_image_header
           \<and> sizeof_image_header \<le> length (concat pre) + length c
           \<and> deliver_chunks False (ADUC_Result_Download_Success, Some demo_ctx, demo_store) pre
               = Inr (ADUC_Result_Download_Success, Some ctx1, demo_store)
           \<and> dl_prog_offset ctx1 = length (concat pre)
           \<and> CombinedDownloadInstall (Some ctx1) demo_store c
               = Inr (ADUC_Result_Failure, Some ctx2, demo_store)
           \<and> dl_prog_offset ctx2 = length (concat pre)
           \<and> deliver_chunks False (ADUC_Result_Download_Success, Some demo_ctx, demo_store) ?cs
               = Inr (ADUC_Result_Failure, Some ctx2, demo_store)"
    by (rule mp [OF spec [OF conjunct2 [OF g]] d])
  show ?thesis
    by (intro conjI h1 h2 h3 h4 d e)
qed

section \<open>Properties of \<^verbatim>\<open>Apply\<close>\<close>

lemma setStageInstalledCriteria_result:
  "nvImgUpgSt_setStageInstalledCriteria s kv =
     (case nvImgUpgSt_getAll kv of
        None \<Rightarrow> (False, kv)
      | Some st \<Rightarrow>
          if length (takeWhile (\<lambda>c. c \<noteq> 0) s) > INSTALLEDCRITERIA_MAXCHAR \<or> \<not> kv_writable kv
          then (False, kv)
          else (True, kv\<lparr>kv_value := Some ((memcpy_at st off_stageInstalledCriteria
                                                  (takeWhile (\<lambda>c. c \<noteq> 0) s @ [0]))
                                               [off_stageInstalledCriteria_valid := 1])\<rparr>))"
  by (simp add: nvImgUpgSt_setStageInstalledCriteria_def nvImgUpgSt_setAll_def Let_def
           split: option.splits)

lemma setStageInstalledCriteria_readable:
  assumes "nvImgUpgSt_setStageInstalledCriteria s kv = (True, kv1)"
  shows "nvImgUpgSt_getAll kv1 \<noteq> None \<and> kv_writable kv1"
proof -
  from assms obtain st where g: "nvImgUpgSt_getAll kv = Some st"
    and l: "length (takeWhile (\<lambda>c. c \<noteq> 0) s) \<le> INSTALLEDCRITERIA_MAXCHAR"
    and w: "kv_writable kv"
    and k: "kv1 = kv\<lparr>kv_value := Some ((memcpy_at st off_stageInstalledCriteria
                                          (takeWhile (\<lambda>c. c \<noteq> 0) s @ [0]))
                                         [off_stageInstalledCriteria_valid := 1])\<rparr>"
    by (auto simp: setStageInstalledCriteria_result split: option.splits if_splits)
  have "length st = 152" using g getAll_length by (simp add: NVImgUpgSt_layout)
  then have "length ((memcpy_at st off_stageInstalledCriteria
                        (takeWhile (\<lambda>c. c \<noteq> 0) s @ [0]))
                       [off_stageInstalledCriteria_valid := 1]) = 152"
    using l by (simp add: memcpy_at_def NVImgUpgSt_layout)
  then show ?thesis
    using k w by (simp add: nvImgUpgSt_getAll_def NVImgUpgSt_layout)
qed

lemma setInstallRebooted_succeeds:
  "nvImgUpgSt_getAll kv \<noteq> None \<Longrightarrow> kv_writable kv
     \<Longrightarrow> fst (nvImgUpgSt_setInstallRebooted b kv)"
  by (auto simp: nvImgUpgSt_setInstallRebooted_def nvImgUpgSt_setAll_def)

text \<open>The result \<^verbatim>\<open>ADUC_Result_Apply_RequiredReboot\<close>, characterised.\<close>

lemma Apply_RequiredReboot_iff:
  "fst (Apply otaCtx_opaque wd kv bl) = ADUC_Result_Apply_RequiredReboot
     \<longleftrightarrow> \<not> IsNullOrEmpty (installed_criteria wd) \<and> \<not> cancel_requested wd
         \<and> nvImgUpgSt_getAll kv \<noteq> None \<and> kv_writable kv
         \<and> length (takeWhile (\<lambda>c. c \<noteq> 0) (the (installed_criteria wd)))
              \<le> INSTALLEDCRITERIA_MAXCHAR
         \<and> set_pending_ok bl"
proof -
  let ?s = "the (installed_criteria wd)"
  show ?thesis
  proof (cases "nvImgUpgSt_setStageInstalledCriteria ?s kv")
    case (Pair ok kv1)
    show ?thesis
    proof (cases ok)
      case False
      then have n: "\<not> (nvImgUpgSt_getAll kv \<noteq> None \<and> kv_writable kv
              \<and> length (takeWhile (\<lambda>c. c \<noteq> 0) ?s) \<le> INSTALLEDCRITERIA_MAXCHAR)"
        using Pair by (auto simp: setStageInstalledCriteria_result split: option.splits if_splits)
      show ?thesis
        using Pair False n
        by (auto simp: Apply_def Cancel_def split: prod.splits bool.splits)
    next
      case True
      then have y: "nvImgUpgSt_getAll kv \<noteq> None \<and> kv_writable kv
              \<and> length (takeWhile (\<lambda>c. c \<noteq> 0) ?s) \<le> INSTALLEDCRITERIA_MAXCHAR"
        using Pair by (auto simp: setStageInstalledCriteria_result split: option.splits if_splits)
      have "fst (nvImgUpgSt_setInstallRebooted False kv1)"
        using setStageInstalledCriteria_readable [of ?s kv kv1] Pair True
        by (simp add: setInstallRebooted_succeeds)
      then show ?thesis
        using Pair True y
        by (auto simp: Apply_def Cancel_def boot_set_pending_def split: prod.splits bool.splits)
    qed
  qed
qed

lemma OTACtx_Reinit_store:
  "snd (OTACtx_Reinit dev kv0) = snd (nvImgUpgSt_reset False kv0)"
  by (auto simp: OTACtx_Reinit_def Let_def split: prod.splits bool.splits option.splits)

lemma reset_writable: "kv_writable (snd (nvImgUpgSt_reset b kv)) = kv_writable kv"
  by (simp add: nvImgUpgSt_reset_def setAll_writable split: option.splits)

lemma OTACtx_Reinit_readable:
  assumes "kv_writable kv0"
  shows "nvImgUpgSt_getAll (snd (OTACtx_Reinit dev kv0)) \<noteq> None"
    and "kv_writable (snd (OTACtx_Reinit dev kv0))"
proof -
  from reset_False_cleared [OF assms] show "nvImgUpgSt_getAll (snd (OTACtx_Reinit dev kv0)) \<noteq> None"
    unfolding OTACtx_Reinit_store by auto
  show "kv_writable (snd (OTACtx_Reinit dev kv0))"
    unfolding OTACtx_Reinit_store using assms by (simp add: reset_writable)
qed

lemma setStageVersion_readable:
  assumes "nvImgUpgSt_getAll kv \<noteq> None" and "kv_writable kv"
  shows "nvImgUpgSt_getAll (snd (nvImgUpgSt_setStageVersion v kv)) \<noteq> None"
    and "kv_writable (snd (nvImgUpgSt_setStageVersion v kv))"
proof -
  from assms(1) obtain st where g: "nvImgUpgSt_getAll kv = Some st" by auto
  then have l: "length st = 152" using getAll_length by (simp add: NVImgUpgSt_layout)
  have "length ((memcpy_at st off_stageVersion (take sizeof_image_version v))
                  [off_stageVersion_valid := 1]) = 152"
    using l by (simp add: memcpy_at_def NVImgUpgSt_layout)
  then show "nvImgUpgSt_getAll (snd (nvImgUpgSt_setStageVersion v kv)) \<noteq> None"
    using g assms(2)
    by (simp add: nvImgUpgSt_setStageVersion_def nvImgUpgSt_setAll_def
          nvImgUpgSt_getAll_def [of "_\<lparr>kv_value := _\<rparr>"] NVImgUpgSt_layout)
  show "kv_writable (snd (nvImgUpgSt_setStageVersion v kv))"
    using assms(2) by (simp add: nvImgUpgSt_setStageVersion_def setAll_writable split: option.splits)
qed

text \<open>
  Claim C8 (gating of \<^verbatim>\<open>Apply\<close>), as amended. \<^verbatim>\<open>Apply\<close> is not gated on
  the outcome of a stage attempt's digest verification; it is gated on the state record
  that a stage attempt creates. It does not read the handler's context: its result is the
  same for every value of \<^verbatim>\<open>otaCtx_opaque\<close>, also for none. It returns
  \<^verbatim>\<open>ADUC_Result_Apply_RequiredReboot\<close> exactly when the
  \<^verbatim>\<open>installedCriteria\<close> property is present and not empty, no cancellation is
  requested, the state record is readable and writable, the criteria string has at most
  \<^verbatim>\<open>INSTALLEDCRITERIA_MAXCHAR\<close> characters and \<^verbatim>\<open>boot_set_pending\<close> succeeds; in
  every other case it returns \<^verbatim>\<open>ADUC_Result_Failure\<close> or the result of
  \<^verbatim>\<open>Cancel\<close>. So it never returns \<^verbatim>\<open>ADUC_Result_Apply_RequiredReboot\<close> while
  the record cannot be read, as before any stage attempt has created it. On the store that
  a stage attempt leaves, that is the store after \<^verbatim>\<open>OTACtx_Reinit\<close> (whose
  \<^verbatim>\<open>nvImgUpgSt_reset(false)\<close> creates the record) when the store is writable, with or
  without the stage version that the header gate sets, the other conditions alone decide:
  no outcome of the digest verification enters.
\<close>

theorem apply_not_gated_by_stage:
  "Apply otaCtx_opaque wd kv bl = Apply None wd kv bl
   \<and> (fst (Apply otaCtx_opaque wd kv bl) = ADUC_Result_Apply_RequiredReboot
        \<longleftrightarrow> \<not> IsNullOrEmpty (installed_criteria wd) \<and> \<not> cancel_requested wd
            \<and> nvImgUpgSt_getAll kv \<noteq> None \<and> kv_writable kv
            \<and> length (takeWhile (\<lambda>c. c \<noteq> 0) (the (installed_criteria wd)))
                 \<le> INSTALLEDCRITERIA_MAXCHAR
            \<and> set_pending_ok bl)
   \<and> fst (Apply otaCtx_opaque wd kv bl)
       \<in> {ADUC_Result_Apply_RequiredReboot, ADUC_Result_Failure,
          ADUC_Result_Cancel_Success, ADUC_Result_Cancel_UnableToCancel}
   \<and> (nvImgUpgSt_getAll kv = None
        \<longrightarrow> fst (Apply otaCtx_opaque wd kv bl) \<noteq> ADUC_Result_Apply_RequiredReboot)
   \<and> (kv_writable kv0 \<and> \<not> IsNullOrEmpty (installed_criteria wd) \<and> \<not> cancel_requested wd
        \<and> length (takeWhile (\<lambda>c. c \<noteq> 0) (the (installed_criteria wd)))
             \<le> INSTALLEDCRITERIA_MAXCHAR
        \<and> set_pending_ok bl
      \<longrightarrow> fst (Apply otaCtx_opaque wd (snd (OTACtx_Reinit dev kv0)) bl)
            = ADUC_Result_Apply_RequiredReboot
          \<and> fst (Apply otaCtx_opaque wd
                   (snd (nvImgUpgSt_setStageVersion v (snd (OTACtx_Reinit dev kv0)))) bl)
              = ADUC_Result_Apply_RequiredReboot)"
proof -
  have a: "Apply otaCtx_opaque wd kv bl = Apply None wd kv bl"
    by (simp add: Apply_def)
  note b = Apply_RequiredReboot_iff [of otaCtx_opaque wd kv bl]
  have c: "fst (Apply otaCtx_opaque wd kv bl)
       \<in> {ADUC_Result_Apply_RequiredReboot, ADUC_Result_Failure,
          ADUC_Result_Cancel_Success, ADUC_Result_Cancel_UnableToCancel}"
    by (auto simp: Apply_def Cancel_def split: prod.splits bool.splits)
  have d: "nvImgUpgSt_getAll kv = None
        \<longrightarrow> fst (Apply otaCtx_opaque wd kv bl) \<noteq> ADUC_Result_Apply_RequiredReboot"
    unfolding b by simp
  have e: "kv_writable kv0 \<and> \<not> IsNullOrEmpty (installed_criteria wd) \<and> \<not> cancel_requested wd
        \<and> length (takeWhile (\<lambda>c. c \<noteq> 0) (the (installed_criteria wd)))
             \<le> INSTALLEDCRITERIA_MAXCHAR
        \<and> set_pending_ok bl
      \<longrightarrow> fst (Apply otaCtx_opaque wd (snd (OTACtx_Reinit dev kv0)) bl)
            = ADUC_Result_Apply_RequiredReboot
          \<and> fst (Apply otaCtx_opaque wd
                   (snd (nvImgUpgSt_setStageVersion v (snd (OTACtx_Reinit dev kv0)))) bl)
              = ADUC_Result_Apply_RequiredReboot"
  proof
    assume H: "kv_writable kv0 \<and> \<not> IsNullOrEmpty (installed_criteria wd) \<and> \<not> cancel_requested wd
        \<and> length (takeWhile (\<lambda>c. c \<noteq> 0) (the (installed_criteria wd)))
             \<le> INSTALLEDCRITERIA_MAXCHAR
        \<and> set_pending_ok bl"
    then have w: "kv_writable kv0" by (rule conjunct1)
    note r = OTACtx_Reinit_readable [OF w, of dev]
    note sv = setStageVersion_readable [OF r, of v]
    show "fst (Apply otaCtx_opaque wd (snd (OTACtx_Reinit dev kv0)) bl)
            = ADUC_Result_Apply_RequiredReboot
          \<and> fst (Apply otaCtx_opaque wd
                   (snd (nvImgUpgSt_setStageVersion v (snd (OTACtx_Reinit dev kv0)))) bl)
              = ADUC_Result_Apply_RequiredReboot"
      unfolding Apply_RequiredReboot_iff using H r sv by simp
  qed
  show ?thesis by (intro conjI a b c d e)
qed

theorem apply_not_gated_by_stage_witness:
  "fst (Apply (Some demo_ctx)
         \<lparr>installed_criteria = None, cancel_requested = False,
           request_cancel_ok = True, reboot_requested = False\<rparr>
         demo_store demo_bootloader)
     \<noteq> ADUC_Result_Apply_RequiredReboot
   \<and> nvImgUpgSt_getAll \<lparr>kv_value = None, kv_writable = True\<rparr> = None
   \<and> fst (Apply None
           \<lparr>installed_criteria = Some [118, 50, 46, 48], cancel_requested = False,
             request_cancel_ok = True, reboot_requested = False\<rparr>
           \<lparr>kv_value = None, kv_writable = True\<rparr> demo_bootloader)
       \<noteq> ADUC_Result_Apply_RequiredReboot
   \<and> kv_writable \<lparr>kv_value = None, kv_writable = True\<rparr>
   \<and> \<not> IsNullOrEmpty (Some [118, 50, 46, 48])
   \<and> length (takeWhile (\<lambda>c. c \<noteq> 0) [118, 50, 46, 48 :: byte]) \<le> INSTALLEDCRITERIA_MAXCHAR
   \<and> set_pending_ok demo_bootloader
   \<and> fst (Apply None
           \<lparr>installed_criteria = Some [118, 50, 46, 48], cancel_requested = False,
             request_cancel_ok = True, reboot_requested = False\<rparr>
           (snd (OTACtx_Reinit (Some demo_device) \<lparr>kv_value = None, kv_writable = True\<rparr>))
           demo_bootloader)
       = ADUC_Result_Apply_RequiredReboot
   \<and> fst (Apply None
           \<lparr>installed_criteria = Some [118, 50, 46, 48], cancel_requested = False,
             request_cancel_ok = True, reboot_requested = False\<rparr>
           (snd (nvImgUpgSt_setStageVersion [1, 0, 0, 0, 0, 0, 0, 0]
                   (snd (OTACtx_Reinit (Some demo_device) \<lparr>kv_value = None, kv_writable = True\<rparr>))))
           demo_bootloader)
       = ADUC_Result_Apply_RequiredReboot"
proof -
  let ?wn = "\<lparr>installed_criteria = None, cancel_requested = False,
               request_cancel_ok = True, reboot_requested = False\<rparr>"
  let ?wc = "\<lparr>installed_criteria = Some [118, 50, 46, 48 :: byte], cancel_requested = False,
               request_cancel_ok = True, reboot_requested = False\<rparr>"
  let ?fresh = "\<lparr>kv_value = None, kv_writable = True\<rparr>"
  have n: "IsNullOrEmpty (installed_criteria ?wn)"
    by (simp add: IsNullOrEmpty_def)
  have w1: "fst (Apply (Some demo_ctx) ?wn demo_store demo_bootloader)
              \<noteq> ADUC_Result_Apply_RequiredReboot"
    using conjunct1 [OF conjunct2
            [OF apply_not_gated_by_stage [of "Some demo_ctx" ?wn demo_store demo_bootloader]]] n
    by simp
  note t = apply_not_gated_by_stage [where otaCtx_opaque = None and wd = ?wc and kv = ?fresh
             and bl = demo_bootloader and ?kv0.0 = ?fresh and dev = "Some demo_device"
             and v = "[1, 0, 0, 0, 0, 0, 0, 0]"]
  have g: "nvImgUpgSt_getAll ?fresh = None" by (simp add: nvImgUpgSt_getAll_def)
  have w2: "fst (Apply None ?wc ?fresh demo_bootloader) \<noteq> ADUC_Result_Apply_RequiredReboot"
    by (rule mp [OF conjunct1 [OF conjunct2 [OF conjunct2 [OF conjunct2 [OF t]]]] g])
  have k: "kv_writable ?fresh" by simp
  have i: "\<not> IsNullOrEmpty (Some [118, 50, 46, 48 :: byte])"
    by (simp add: IsNullOrEmpty_def)
  have l: "length (takeWhile (\<lambda>c. c \<noteq> 0) [118, 50, 46, 48 :: byte]) \<le> INSTALLEDCRITERIA_MAXCHAR"
    by (simp add: INSTALLEDCRITERIA_MAXCHAR_def)
  have p: "set_pending_ok demo_bootloader" by (simp add: demo_bootloader_def)
  have H: "kv_writable ?fresh \<and> \<not> IsNullOrEmpty (installed_criteria ?wc) \<and> \<not> cancel_requested ?wc
        \<and> length (takeWhile (\<lambda>c. c \<noteq> 0) (the (installed_criteria ?wc)))
             \<le> INSTALLEDCRITERIA_MAXCHAR
        \<and> set_pending_ok demo_bootloader"
    using k i l p by simp
  note e = mp [OF conjunct2 [OF conjunct2 [OF conjunct2 [OF conjunct2 [OF t]]]] H]
  show ?thesis
    by (intro conjI w1 g w2 k i l p conjunct1 [OF e] conjunct2 [OF e])
qed

text \<open>
  The claim as stated (without a preceding stage whose digest matched, \<^verbatim>\<open>Apply\<close>
  returns \<^verbatim>\<open>ADUC_Result_Failure\<close>) fails: with no digest ever verified
  (\<^verbatim>\<open>otaCtx_opaque\<close> is null), the criteria ``v2.0'', the all-zero record that
  \<^verbatim>\<open>nvImgUpgSt_reset(false)\<close> creates at the start of a stage attempt, and a
  bootloader that accepts the pending mark, \<^verbatim>\<open>Apply\<close> returns
  \<^verbatim>\<open>ADUC_Result_Apply_RequiredReboot\<close>.
\<close>

theorem apply_without_stage_counterexample:
  "fst (Apply None
         \<lparr>installed_criteria = Some [118, 50, 46, 48], cancel_requested = False,
           request_cancel_ok = True, reboot_requested = False\<rparr>
         demo_store demo_bootloader)
     = ADUC_Result_Apply_RequiredReboot"
  by code_simp


section \<open>Properties of \<^verbatim>\<open>VerifySignature\<close>\<close>

text \<open>
  Claim C9 (no hash entries). For every file entity with \<^verbatim>\<open>HashCount == 0\<close>, every
  context and every hash library, \<^verbatim>\<open>VerifySignature\<close> returns \<^verbatim>\<open>true\<close> and
  issues no read to the secondary device; the result does not depend on the hash library,
  so no digest is computed or compared.
\<close>

theorem verify_without_hashes:
  assumes "HashCount fileEntity = 0"
  shows "VerifySignature lib (Some ctx) fileEntity = Inr (True, [])"
  using assms by (simp add: VerifySignature_def)

theorem verify_without_hashes_witness:
  "HashCount \<lparr>Hash = [], SizeInBytes = 100\<rparr> = 0
   \<and> VerifySignature
        \<lparr>GetShaVersionForTypeString = (\<lambda>t. None), USHAReset = (\<lambda>v. None :: unit option),
          USHAInput = (\<lambda>s d. None), USHAResult = (\<lambda>s. None),
          Base64_Encode_Bytes = (\<lambda>d. None)\<rparr>
        (Some demo_ctx) \<lparr>Hash = [], SizeInBytes = 100\<rparr>
      = Inr (True, [])"
  using verify_without_hashes [of "\<lparr>Hash = [], SizeInBytes = 100\<rparr>"
      "\<lparr>GetShaVersionForTypeString = (\<lambda>t. None), USHAReset = (\<lambda>v. None :: unit option),
          USHAInput = (\<lambda>s d. None), USHAResult = (\<lambda>s. None),
          Base64_Encode_Bytes = (\<lambda>d. None)\<rparr>" demo_ctx]
  by (simp add: HashCount_def)


end
